theory Spec2Isabelle
  imports Main "HOL-Library.Sublist"
begin

section \<open>Python values used by the food logger\<close>

subsection \<open>Strings\<close>

text \<open>
  A Python \<open>str\<close> is a sequence of Unicode code points, so a string is a list of
  naturals. \<open>str_of\<close> turns an ASCII literal of the theory into such a string.
\<close>

type_synonym pystr = "nat list"

definition str_of :: "string \<Rightarrow> pystr" where
  "str_of s = map of_char s"

text \<open>\<open>needle in hay\<close> on two strings: \<open>needle\<close> occurs as a contiguous run.\<close>

fun contains :: "pystr \<Rightarrow> pystr \<Rightarrow> bool" where
  "contains needle [] = (needle = [])"
| "contains needle (c # cs) = (prefix needle (c # cs) \<or> contains needle cs)"

text \<open>\<open>s.startswith(p)\<close>.\<close>

definition startswith :: "pystr \<Rightarrow> pystr \<Rightarrow> bool" where
  "startswith s p = (take (length p) s = p)"

subsection \<open>Floats\<close>

text \<open>
  A Python \<open>float\<close> is an IEEE 754 binary64 value. \<open>Finite s m e\<close> stands for
  \<open>(-1)^s * m * 2^e\<close>; the values the operations below return have
  \<open>m < 2^53\<close>, \<open>-1074 \<le> e \<le> 971\<close> and \<open>2^52 \<le> m\<close> unless \<open>e = -1074\<close>
  (the subnormal numbers and the two zeros).
\<close>

datatype f64 = Finite bool nat int | Infinity bool | NaN

fun bitlen :: "nat \<Rightarrow> nat" where
  "bitlen n = (if n = 0 then 0 else Suc (bitlen (n div 2)))"

declare bitlen.simps [simp del]

text \<open>
  \<open>round_half_even num den\<close> is the integer nearest to \<open>num / den\<close>, ties to even.
\<close>

definition round_pick :: "nat \<Rightarrow> nat \<Rightarrow> nat \<Rightarrow> nat" where
  "round_pick qt rm den = (if den < 2 * rm \<or> (2 * rm = den \<and> odd qt) then qt + 1 else qt)"

definition round_half_even :: "nat \<Rightarrow> nat \<Rightarrow> nat" where
  "round_half_even num den = round_pick (num div den) (num mod den) den"

text \<open>\<open>ilog2_ratio p q\<close> is the integer part of the binary logarithm of \<open>p / q\<close>.\<close>

definition ilog2_adjust :: "nat \<Rightarrow> nat \<Rightarrow> int \<Rightarrow> int" where
  "ilog2_adjust p q d = (if q * 2 ^ nat d \<le> p * 2 ^ nat (- d) then d else d - 1)"

definition ilog2_ratio :: "nat \<Rightarrow> nat \<Rightarrow> int" where
  "ilog2_ratio p q = ilog2_adjust p q (int (bitlen p) - int (bitlen q))"

text \<open>
  A significand \<open>m \<le> 2^53\<close> at exponent \<open>e\<close> as a float: \<open>2^53\<close> is carried into the
  exponent, and an exponent above 971 is beyond the largest finite value.
\<close>

definition pack :: "bool \<Rightarrow> nat \<Rightarrow> int \<Rightarrow> f64" where
  "pack s m e =
     (if m = 2 ^ 53 then (if 971 < e + 1 then Infinity s else Finite s (2 ^ 52) (e + 1))
      else if 971 < e then Infinity s
      else Finite s m e)"

definition round_at :: "bool \<Rightarrow> nat \<Rightarrow> nat \<Rightarrow> int \<Rightarrow> f64" where
  "round_at s p q e = pack s (round_half_even (p * 2 ^ nat (- e)) (q * 2 ^ nat e)) e"

text \<open>
  Round the rational \<open>(-1)^s * p / q\<close> (with \<open>q > 0\<close>) to the nearest binary64
  value, ties to even: the significand has 53 bits, or fewer at the least exponent
  \<open>-1074\<close>.
\<close>

definition round_ratio :: "bool \<Rightarrow> nat \<Rightarrow> nat \<Rightarrow> f64" where
  "round_ratio s p q =
     (if p = 0 then Finite s 0 (-1074)
      else round_at s p q (max (ilog2_ratio p q - 52) (-1074)))"

text \<open>Round \<open>(-1)^s * m * 2^e\<close>.\<close>

definition round_f64 :: "bool \<Rightarrow> nat \<Rightarrow> int \<Rightarrow> f64" where
  "round_f64 s m e = round_ratio s (m * 2 ^ nat e) (2 ^ nat (- e))"

definition zero_f64 :: f64 where
  "zero_f64 = Finite False 0 (-1074)"

text \<open>\<open>a * b\<close> on two floats.\<close>

fun fmul :: "f64 \<Rightarrow> f64 \<Rightarrow> f64" where
  "fmul NaN _ = NaN"
| "fmul _ NaN = NaN"
| "fmul (Infinity s) (Infinity t) = Infinity (s \<noteq> t)"
| "fmul (Infinity s) (Finite t m e) = (if m = 0 then NaN else Infinity (s \<noteq> t))"
| "fmul (Finite s m e) (Infinity t) = (if m = 0 then NaN else Infinity (s \<noteq> t))"
| "fmul (Finite s m e) (Finite t n d) = round_f64 (s \<noteq> t) (m * n) (e + d)"

declare fmul.simps [simp del]

text \<open>\<open>a + b\<close> on two floats.\<close>

definition signed :: "bool \<Rightarrow> nat \<Rightarrow> int" where
  "signed s m = (if s then - int m else int m)"

definition round_sum :: "bool \<Rightarrow> int \<Rightarrow> int \<Rightarrow> f64" where
  "round_sum both_negative c e =
     (if c = 0 then Finite both_negative 0 (-1074) else round_f64 (c < 0) (nat \<bar>c\<bar>) e)"

fun fadd :: "f64 \<Rightarrow> f64 \<Rightarrow> f64" where
  "fadd NaN _ = NaN"
| "fadd _ NaN = NaN"
| "fadd (Infinity s) (Infinity t) = (if s = t then Infinity s else NaN)"
| "fadd (Infinity s) (Finite t m e) = Infinity s"
| "fadd (Finite s m e) (Infinity t) = Infinity t"
| "fadd (Finite s m e) (Finite t n d) =
     round_sum (s \<and> t)
       (signed s (m * 2 ^ nat (e - min e d)) + signed t (n * 2 ^ nat (d - min e d)))
       (min e d)"

declare fadd.simps [simp del]

text \<open>
  \<open>float(n)\<close> on an \<open>int\<close>, as the arithmetic does before it multiplies or adds an
  \<open>int\<close> and a \<open>float\<close>: the nearest float, and OverflowError when there is none.
\<close>

datatype py_error = OverflowError | TypeError | AttributeError | KeyError pystr
  | JSONDecodeError | RecursionError | RequestError

definition float_of_int :: "int \<Rightarrow> py_error + f64" where
  "float_of_int n =
     (case round_f64 (n < 0) (nat \<bar>n\<bar>) 0 of
        Infinity _ \<Rightarrow> Inl OverflowError
      | x \<Rightarrow> Inr x)"

text \<open>The decimal digits of a natural number, as \<open>str(n)\<close> prints them.\<close>

fun show_nat :: "nat \<Rightarrow> pystr" where
  "show_nat n = (if n < 10 then [48 + n] else show_nat (n div 10) @ [48 + n mod 10])"

declare show_nat.simps [simp del]

text \<open>
  \<open>format(x, '.1f')\<close>: the decimal with one digit after the point nearest to the exact
  value of \<open>x\<close>, ties to even; the sign is printed for every negative float, also
  for \<open>-0.0\<close>.
\<close>

definition fmt1_digits :: "bool \<Rightarrow> nat \<Rightarrow> pystr" where
  "fmt1_digits s t =
     (if s then str_of ''-'' else []) @ show_nat (t div 10) @ str_of ''.'' @ show_nat (t mod 10)"

fun fmt1 :: "f64 \<Rightarrow> pystr" where
  "fmt1 NaN = str_of ''nan''"
| "fmt1 (Infinity s) = (if s then str_of ''-inf'' else str_of ''inf'')"
| "fmt1 (Finite s m e) =
     fmt1_digits s (round_half_even (10 * m * 2 ^ nat e) (2 ^ nat (- e)))"

declare fmt1.simps [simp del]

text \<open>
  \<open>float(s)\<close> on a decimal literal with sign \<open>s\<close>, digits of value \<open>n\<close> and decimal
  exponent \<open>e\<close>: the float nearest to \<open>(-1)^s * n * 10^e\<close>.
\<close>

definition float_of_dec :: "bool \<Rightarrow> nat \<Rightarrow> int \<Rightarrow> f64" where
  "float_of_dec s n e = round_ratio s (n * 10 ^ nat e) (10 ^ nat (- e))"

subsection \<open>Numbers and JSON values\<close>

text \<open>
  A JSON number is read as an \<open>int\<close> or as a \<open>float\<close>. \<open>n * x\<close> with a float \<open>x\<close>
  converts an \<open>int\<close> \<open>n\<close> first.
\<close>

datatype pynum = PInt int | PFloat f64

definition to_float :: "pynum \<Rightarrow> py_error + f64" where
  "to_float v = (case v of PInt n \<Rightarrow> float_of_int n | PFloat x \<Rightarrow> Inr x)"

text \<open>
  An exception ends the computation: \<open>bind r f\<close> runs \<open>f\<close> on the value of \<open>r\<close>, or
  passes the exception of \<open>r\<close> on.
\<close>

definition bind :: "py_error + 'a \<Rightarrow> ('a \<Rightarrow> py_error + 'b) \<Rightarrow> py_error + 'b" where
  "bind r f = (case r of Inl err \<Rightarrow> Inl err | Inr x \<Rightarrow> f x)"

definition py_mul :: "pynum \<Rightarrow> f64 \<Rightarrow> py_error + f64" where
  "py_mul v x = bind (to_float v) (\<lambda>y. Inr (fmul y x))"

text \<open>
  The values \<open>json.loads\<close> returns and \<open>json.dumps\<close> prints. An object is the list of
  its members in the order written; a lookup takes the last member of that key, as the
  \<open>dict\<close> built from the members does.
\<close>

datatype json = JNull | JBool bool | JNum pynum | JStr pystr
  | JArr "json list" | JObj "(pystr \<times> json) list"

section \<open>The food-detail record of the remote database\<close>

text \<open>
  The response of the detail request, with the keys the commands read. A key that may
  be absent is an \<open>option\<close>: \<open>d.get(k, default)\<close> reads \<open>None\<close> as the default.
\<close>

record nutrient_ref =
  name :: "pystr option"
  unitName :: "pystr option"

record food_nutrient =
  nutrient :: "nutrient_ref option"
  amount :: "pynum option"

record food_detail =
  description :: "pystr option"
  servingSize :: "pynum option"
  servingUnit :: "pystr option"
  foodNutrients :: "food_nutrient list option"

definition get_or :: "'a option \<Rightarrow> 'a \<Rightarrow> 'a" where
  "get_or v d = (case v of None \<Rightarrow> d | Some x \<Rightarrow> x)"

text \<open>\<open>nutrient.get("nutrient", {}).get("name", "")\<close> and the same for \<open>"unitName"\<close>.\<close>

definition nutrient_name_of :: "food_nutrient \<Rightarrow> pystr" where
  "nutrient_name_of n = (case nutrient n of None \<Rightarrow> [] | Some r \<Rightarrow> get_or (name r) [])"

definition unit_name_of :: "food_nutrient \<Rightarrow> pystr" where
  "unit_name_of n = (case nutrient n of None \<Rightarrow> [] | Some r \<Rightarrow> get_or (unitName r) [])"

text \<open>\<open>nutrient.get("amount", 0)\<close>.\<close>

definition amount_of :: "food_nutrient \<Rightarrow> pynum" where
  "amount_of n = get_or (amount n) (PInt 0)"

section \<open>The log command: extraction, scaling, logging\<close>

text \<open>The four local variables \<open>calories\<close>, \<open>protein\<close>, \<open>carbs\<close>, \<open>fat\<close> of the loop.\<close>

record summary =
  calories :: pynum
  protein :: pynum
  carbs :: pynum
  fat :: pynum

definition zero_summary :: summary where
  "zero_summary =
     \<lparr>calories = PFloat zero_f64, protein = PFloat zero_f64,
      carbs = PFloat zero_f64, fat = PFloat zero_f64\<rparr>"

text \<open>The body of the loop over \<open>nutrients\<close> in \<open>log\<close>.\<close>

definition log_step :: "summary \<Rightarrow> food_nutrient \<Rightarrow> summary" where
  "log_step acc n =
     (if contains (str_of ''Energy'') (nutrient_name_of n)
         \<and> contains (str_of ''kcal'') (unit_name_of n)
      then acc\<lparr>calories := amount_of n\<rparr>
      else if nutrient_name_of n = str_of ''Protein''
      then acc\<lparr>protein := amount_of n\<rparr>
      else if nutrient_name_of n = str_of ''Carbohydrate, by difference''
      then acc\<lparr>carbs := amount_of n\<rparr>
      else if nutrient_name_of n = str_of ''Total lipid (fat)''
      then acc\<lparr>fat := amount_of n\<rparr>
      else acc)"

text \<open>
  Extraction (\<open>log_extract\<close>): the variables start at \<open>0.0\<close>, and the loop runs over
  \<open>food.get("foodNutrients", [])\<close>.
\<close>

definition log_extract :: "food_nutrient list option \<Rightarrow> summary" where
  "log_extract nutrients = foldl log_step zero_summary (get_or nutrients [])"

text \<open>The same loop as \<open>quick\<close> writes it.\<close>

definition quick_step :: "summary \<Rightarrow> food_nutrient \<Rightarrow> summary" where
  "quick_step acc n =
     (if contains (str_of ''Energy'') (nutrient_name_of n)
         \<and> contains (str_of ''kcal'') (unit_name_of n)
      then acc\<lparr>calories := amount_of n\<rparr>
      else if nutrient_name_of n = str_of ''Protein''
      then acc\<lparr>protein := amount_of n\<rparr>
      else if nutrient_name_of n = str_of ''Carbohydrate, by difference''
      then acc\<lparr>carbs := amount_of n\<rparr>
      else if nutrient_name_of n = str_of ''Total lipid (fat)''
      then acc\<lparr>fat := amount_of n\<rparr>
      else acc)"

definition quick_extract :: "food_nutrient list option \<Rightarrow> summary" where
  "quick_extract nutrients = foldl quick_step zero_summary (get_or nutrients [])"

text \<open>
  Scaling (\<open>log_scale\<close>): the four products by \<open>servings\<close> in the order of the source, then the
  serving text. An \<open>int\<close> too large for a float raises OverflowError at its product.
\<close>

record scaled =
  s_calories :: f64
  s_protein :: f64
  s_carbs :: f64
  s_fat :: f64
  serving_text :: pystr

definition log_scale :: "summary \<Rightarrow> pynum \<Rightarrow> pystr \<Rightarrow> f64 \<Rightarrow> py_error + scaled" where
  "log_scale s serving_size serving_unit servings =
     bind (py_mul (calories s) servings) (\<lambda>c.
     bind (py_mul (protein s) servings) (\<lambda>p.
     bind (py_mul (carbs s) servings) (\<lambda>cb.
     bind (py_mul (fat s) servings) (\<lambda>f.
     bind (py_mul serving_size servings) (\<lambda>sz.
       Inr \<lparr>s_calories = c, s_protein = p, s_carbs = cb, s_fat = f,
            serving_text = fmt1 sz @ str_of '' '' @ serving_unit\<rparr>)))))"

definition quick_scale :: "summary \<Rightarrow> pynum \<Rightarrow> pystr \<Rightarrow> f64 \<Rightarrow> py_error + scaled" where
  "quick_scale s serving_size serving_unit servings =
     bind (py_mul (calories s) servings) (\<lambda>c.
     bind (py_mul (protein s) servings) (\<lambda>p.
     bind (py_mul (carbs s) servings) (\<lambda>cb.
     bind (py_mul (fat s) servings) (\<lambda>f.
     bind (py_mul serving_size servings) (\<lambda>sz.
       Inr \<lparr>s_calories = c, s_protein = p, s_carbs = cb, s_fat = f,
            serving_text = fmt1 sz @ str_of '' '' @ serving_unit\<rparr>)))))"

section \<open>The log store\<close>

subsection \<open>Serialising an entry\<close>

text \<open>
  \<open>json.dumps\<close> with its defaults: only ASCII is printed, with the short escapes for the
  quote, the backslash and five control characters, \<open>\uXXXX\<close> for every other
  character outside \<open>' '\<close> .. \<open>'~'\<close>, and a surrogate pair above \<open>U+FFFF\<close>.
\<close>

definition hex_digit :: "nat \<Rightarrow> nat" where
  "hex_digit d = (if d < 10 then 48 + d else 87 + d)"

definition hex4 :: "nat \<Rightarrow> pystr" where
  "hex4 n = [hex_digit (n div 4096 mod 16), hex_digit (n div 256 mod 16),
             hex_digit (n div 16 mod 16), hex_digit (n mod 16)]"

definition escape_char :: "nat \<Rightarrow> pystr" where
  "escape_char c =
     (if c = 34 then [92, 34]
      else if c = 92 then [92, 92]
      else if c = 10 then [92, 110]
      else if c = 13 then [92, 114]
      else if c = 9 then [92, 116]
      else if c = 8 then [92, 98]
      else if c = 12 then [92, 102]
      else if 32 \<le> c \<and> c \<le> 126 then [c]
      else if c < 65536 then [92, 117] @ hex4 c
      else [92, 117] @ hex4 (55296 + (c - 65536) div 1024 mod 1024)
           @ [92, 117] @ hex4 (56320 + (c - 65536) mod 1024))"

definition encode_string :: "pystr \<Rightarrow> pystr" where
  "encode_string s = [34] @ concat (map escape_char s) @ [34]"

definition show_int :: "int \<Rightarrow> pystr" where
  "show_int n = (if n < 0 then str_of ''-'' @ show_nat (nat (- n)) else show_nat (nat n))"

text \<open>
  A finite float is printed by \<open>float.__repr__\<close>, the shortest decimal that reads back
  as the same float. The printer is a parameter \<open>float_repr\<close> of the serialiser.
\<close>

definition floatstr :: "(f64 \<Rightarrow> pystr) \<Rightarrow> f64 \<Rightarrow> pystr" where
  "floatstr float_repr x =
     (case x of
        NaN \<Rightarrow> str_of ''NaN''
      | Infinity s \<Rightarrow> (if s then str_of ''-Infinity'' else str_of ''Infinity'')
      | Finite s m e \<Rightarrow> float_repr x)"

fun json_dumps :: "(f64 \<Rightarrow> pystr) \<Rightarrow> json \<Rightarrow> pystr"
  and dumps_items :: "(f64 \<Rightarrow> pystr) \<Rightarrow> json list \<Rightarrow> pystr"
  and dumps_members :: "(f64 \<Rightarrow> pystr) \<Rightarrow> (pystr \<times> json) list \<Rightarrow> pystr" where
  "json_dumps r JNull = str_of ''null''"
| "json_dumps r (JBool b) = (if b then str_of ''true'' else str_of ''false'')"
| "json_dumps r (JNum (PInt n)) = show_int n"
| "json_dumps r (JNum (PFloat x)) = floatstr r x"
| "json_dumps r (JStr s) = encode_string s"
| "json_dumps r (JArr vs) = str_of ''['' @ dumps_items r vs @ str_of '']''"
| "json_dumps r (JObj kvs) = str_of ''{'' @ dumps_members r kvs @ str_of ''}''"
| "dumps_items r [] = []"
| "dumps_items r [v] = json_dumps r v"
| "dumps_items r (v # w # vs) = json_dumps r v @ str_of '', '' @ dumps_items r (w # vs)"
| "dumps_members r [] = []"
| "dumps_members r [(k, v)] = encode_string k @ str_of '': '' @ json_dumps r v"
| "dumps_members r ((k, v) # kv # kvs) =
     encode_string k @ str_of '': '' @ json_dumps r v @ str_of '', ''
     @ dumps_members r (kv # kvs)"

subsection \<open>Appending\<close>

text \<open>
  The log file is \<open>None\<close> while it does not exist and \<open>Some text\<close> afterwards. \<open>now\<close>
  is the string \<open>datetime.now().isoformat()\<close>.
\<close>

definition log_entry ::
  "pystr \<Rightarrow> pystr \<Rightarrow> f64 \<Rightarrow> f64 \<Rightarrow> f64 \<Rightarrow> f64 \<Rightarrow> pystr \<Rightarrow> json" where
  "log_entry now food_name calories' protein' carbs' fat' serving =
     JObj [(str_of ''timestamp'', JStr now),
           (str_of ''food'', JStr food_name),
           (str_of ''serving'', JStr serving),
           (str_of ''calories'', JNum (PFloat calories')),
           (str_of ''protein_g'', JNum (PFloat protein')),
           (str_of ''carbs_g'', JNum (PFloat carbs')),
           (str_of ''fat_g'', JNum (PFloat fat'))]"

text \<open>\<open>open(LOG_FILE, "a")\<close> and one \<open>write\<close>: the text goes after what the file holds.\<close>

definition append_text :: "pystr option \<Rightarrow> pystr \<Rightarrow> pystr option" where
  "append_text file text = Some (get_or file [] @ text)"

definition log_food ::
  "(f64 \<Rightarrow> pystr) \<Rightarrow> pystr \<Rightarrow> pystr option
   \<Rightarrow> pystr \<Rightarrow> f64 \<Rightarrow> f64 \<Rightarrow> f64 \<Rightarrow> f64 \<Rightarrow> pystr \<Rightarrow> pystr option" where
  "log_food float_repr now file food_name calories' protein' carbs' fat' serving =
     append_text file
       (json_dumps float_repr (log_entry now food_name calories' protein' carbs' fat' serving)
        @ [10])"

subsection \<open>The commands \<open>log\<close> and \<open>quick\<close>\<close>

text \<open>
  The two requests to the remote database are parameters: \<open>get_food_details\<close> and
  \<open>search_food\<close> return the decoded response or the exception of the request. An
  exception inside a command is reported and ends it (\<open>typer.Exit(1)\<close>) with the log
  file as it was; a command that returns gives the log file it leaves. The lines
  printed to the console are not part of the result.
\<close>

definition log ::
  "(int \<Rightarrow> py_error + food_detail) \<Rightarrow> (f64 \<Rightarrow> pystr) \<Rightarrow> pystr
   \<Rightarrow> int \<Rightarrow> f64 \<Rightarrow> pystr option \<Rightarrow> py_error + pystr option" where
  "log get_food_details float_repr now fdc_id servings file =
     bind (get_food_details fdc_id) (\<lambda>food.
     bind (log_scale (log_extract (foodNutrients food))
             (get_or (servingSize food) (PInt 100))
             (get_or (servingUnit food) (str_of ''g'')) servings) (\<lambda>r.
       Inr (log_food float_repr now file
              (get_or (description food) (str_of ''Unknown food''))
              (s_calories r) (s_protein r) (s_carbs r) (s_fat r) (serving_text r))))"

record search_hit =
  fdcId :: int

record search_results =
  foods :: "search_hit list option"

definition quick ::
  "(pystr \<Rightarrow> nat \<Rightarrow> py_error + search_results) \<Rightarrow> (int \<Rightarrow> py_error + food_detail)
   \<Rightarrow> (f64 \<Rightarrow> pystr) \<Rightarrow> pystr
   \<Rightarrow> pystr \<Rightarrow> f64 \<Rightarrow> pystr option \<Rightarrow> py_error + pystr option" where
  "quick search_food get_food_details float_repr now query servings file =
     bind (search_food query 1) (\<lambda>results.
       (case get_or (foods results) [] of
          [] \<Rightarrow> Inr file
        | food_result # _ \<Rightarrow>
            bind (get_food_details (fdcId food_result)) (\<lambda>food.
            bind (quick_scale (quick_extract (foodNutrients food))
                    (get_or (servingSize food) (PInt 100))
                    (get_or (servingUnit food) (str_of ''g'')) servings) (\<lambda>r.
              Inr (log_food float_repr now file
                     (get_or (description food) (str_of ''Unknown food''))
                     (s_calories r) (s_protein r) (s_carbs r) (s_fat r)
                     (serving_text r))))))"

section \<open>The matching rules of the specification\<close>

text \<open>
  The rule of each tracked field, in the words of the specification: the name contains
  "Energy" and the unit contains "kcal"; the name is exactly "Protein",
  "Carbohydrate, by difference", "Total lipid (fat)".
\<close>

definition calories_rule :: "food_nutrient \<Rightarrow> bool" where
  "calories_rule n \<longleftrightarrow>
     contains (str_of ''Energy'') (nutrient_name_of n)
     \<and> contains (str_of ''kcal'') (unit_name_of n)"

definition protein_rule :: "food_nutrient \<Rightarrow> bool" where
  "protein_rule n \<longleftrightarrow> nutrient_name_of n = str_of ''Protein''"

definition carbs_rule :: "food_nutrient \<Rightarrow> bool" where
  "carbs_rule n \<longleftrightarrow> nutrient_name_of n = str_of ''Carbohydrate, by difference''"

definition fat_rule :: "food_nutrient \<Rightarrow> bool" where
  "fat_rule n \<longleftrightarrow> nutrient_name_of n = str_of ''Total lipid (fat)''"

text \<open>A reading of the detail response with all its keys present.\<close>

definition reading :: "string \<Rightarrow> string \<Rightarrow> pynum \<Rightarrow> food_nutrient" where
  "reading nm un v =
     \<lparr>nutrient = Some \<lparr>name = Some (str_of nm), unitName = Some (str_of un)\<rparr>,
      amount = Some v\<rparr>"

subsection \<open>Reading a line back\<close>

text \<open>
  \<open>json.loads\<close> with its defaults, as the scanner of CPython reads a text: leading
  and trailing whitespace is skipped, and anything else after the value is an error.
  Every error of the scanner is a JSONDecodeError. Two limits of the interpreter are
  outside the model: the recursion limit on nested arrays and objects, and the limit
  on the number of digits of an integer literal.
\<close>

definition is_ws :: "nat \<Rightarrow> bool" where
  "is_ws c \<longleftrightarrow> c = 32 \<or> c = 9 \<or> c = 10 \<or> c = 13"

definition skip_ws :: "pystr \<Rightarrow> pystr" where
  "skip_ws s = dropWhile is_ws s"

definition is_digit :: "nat \<Rightarrow> bool" where
  "is_digit c \<longleftrightarrow> 48 \<le> c \<and> c \<le> 57"

text \<open>The value of a run of decimal digits.\<close>

definition digits_value :: "pystr \<Rightarrow> nat" where
  "digits_value ds = foldl (\<lambda>a d. 10 * a + (d - 48)) 0 ds"

text \<open>The four hexadecimal digits of a \<open>\uXXXX\<close> escape, in either case.\<close>

definition hex_value :: "nat \<Rightarrow> nat option" where
  "hex_value c =
     (if 48 \<le> c \<and> c \<le> 57 then Some (c - 48)
      else if 97 \<le> c \<and> c \<le> 102 then Some (c - 87)
      else if 65 \<le> c \<and> c \<le> 70 then Some (c - 55)
      else None)"

definition hex4_value :: "nat \<Rightarrow> nat \<Rightarrow> nat \<Rightarrow> nat \<Rightarrow> nat option" where
  "hex4_value a b c d =
     (case (hex_value a, hex_value b, hex_value c, hex_value d) of
        (Some x, Some y, Some z, Some w) \<Rightarrow> Some (4096 * x + 256 * y + 16 * z + w)
      | _ \<Rightarrow> None)"

definition simple_escape :: "nat \<Rightarrow> nat option" where
  "simple_escape c =
     (if c = 34 then Some 34
      else if c = 92 then Some 92
      else if c = 47 then Some 47
      else if c = 98 then Some 8
      else if c = 102 then Some 12
      else if c = 110 then Some 10
      else if c = 114 then Some 13
      else if c = 116 then Some 9
      else None)"

definition is_high_surrogate :: "nat \<Rightarrow> bool" where
  "is_high_surrogate c \<longleftrightarrow> 55296 \<le> c \<and> c \<le> 56319"

definition is_low_surrogate :: "nat \<Rightarrow> bool" where
  "is_low_surrogate c \<longleftrightarrow> 56320 \<le> c \<and> c \<le> 57343"

definition join_surrogates :: "nat \<Rightarrow> nat \<Rightarrow> nat" where
  "join_surrogates hi lo = 65536 + (hi - 55296) * 1024 + (lo - 56320)"

definition push_char :: "nat \<Rightarrow> py_error + (pystr \<times> pystr) \<Rightarrow> py_error + (pystr \<times> pystr)" where
  "push_char c r = bind r (\<lambda>(s, rest). Inr (c # s, rest))"

text \<open>The four hexadecimal digits after \<open>\u\<close>.\<close>

definition scan_u4 :: "pystr \<Rightarrow> (nat \<times> pystr) option" where
  "scan_u4 s =
     (case s of
        a # b # c # d # rest \<Rightarrow>
          (case hex4_value a b c d of None \<Rightarrow> None | Some v \<Rightarrow> Some (v, rest))
      | _ \<Rightarrow> None)"

text \<open>
  After the escape of a high surrogate \<open>hi\<close>: when at least six characters follow and
  the first two are \<open>\u\<close>, the next four are read as hexadecimal digits (an error if
  they are not); a low surrogate joins \<open>hi\<close> into one character, anything else leaves
  \<open>hi\<close> alone and is read again as the next escape.
\<close>

definition scan_low :: "nat \<Rightarrow> pystr \<Rightarrow> py_error + (nat \<times> pystr)" where
  "scan_low hi s =
     (case s of
        bs # u # rest \<Rightarrow>
          if bs = 92 \<and> u = 117 \<and> 4 \<le> length rest then
            (case scan_u4 rest of
               None \<Rightarrow> Inl JSONDecodeError
             | Some (lo, rest') \<Rightarrow>
                 if is_low_surrogate lo then Inr (join_surrogates hi lo, rest')
                 else Inr (hi, s))
          else Inr (hi, s)
      | _ \<Rightarrow> Inr (hi, s))"

text \<open>The character of the escape that follows a backslash.\<close>

definition scan_escape :: "pystr \<Rightarrow> py_error + (nat \<times> pystr)" where
  "scan_escape s =
     (case s of
        [] \<Rightarrow> Inl JSONDecodeError
      | e # es \<Rightarrow>
          if e = 117 then
            (case scan_u4 es of
               None \<Rightarrow> Inl JSONDecodeError
             | Some (hi, rest) \<Rightarrow>
                 if is_high_surrogate hi then scan_low hi rest else Inr (hi, rest))
          else
            (case simple_escape e of
               None \<Rightarrow> Inl JSONDecodeError
             | Some ch \<Rightarrow> Inr (ch, es)))"

text \<open>
  \<open>scanstring s\<close> reads a string literal whose opening quote has been consumed, and
  returns the string with what follows the closing quote. A control character below
  \<open>' '\<close> is an error.
\<close>

function scanstring :: "pystr \<Rightarrow> py_error + (pystr \<times> pystr)" where
  "scanstring [] = Inl JSONDecodeError"
| "scanstring (c # cs) =
     (if c = 34 then Inr ([], cs)
      else if c = 92 then
        (case scan_escape cs of
           Inl err \<Rightarrow> Inl err
         | Inr (ch, rest) \<Rightarrow> push_char ch (scanstring rest))
      else if c \<le> 31 then Inl JSONDecodeError
      else push_char c (scanstring cs))"
  by pat_completeness auto
termination
proof -
  have u4: "length s = length rest + 4" if "scan_u4 s = Some (v, rest)" for s v rest
    using that by (auto simp: scan_u4_def split: list.splits option.splits)
  have low: "length rest \<le> length s" if "scan_low hi s = Inr (c, rest)" for hi s c rest
    using that
    by (auto simp: scan_low_def split: list.splits option.splits if_splits dest!: u4)
  have esc: "length rest < length s" if "scan_escape s = Inr (c, rest)" for s c rest
    using that
    by (auto simp: scan_escape_def split: list.splits option.splits if_splits
        dest!: u4 low)
  show ?thesis
    by (relation "measure length") (auto dest: esc)
qed

text \<open>
  A number literal: an optional minus, \<open>0\<close> or a run of digits not starting with \<open>0\<close>,
  an optional fraction (a point and at least one digit), an optional exponent (\<open>e\<close> or
  \<open>E\<close>, an optional sign, at least one digit). With a fraction or an exponent it is read
  by \<open>float\<close>, else by \<open>int\<close>.
\<close>

definition scan_int_part :: "pystr \<Rightarrow> (pystr \<times> pystr) option" where
  "scan_int_part s =
     (case s of
        [] \<Rightarrow> None
      | c # cs \<Rightarrow>
          if c = 48 then Some ([c], cs)
          else if 49 \<le> c \<and> c \<le> 57
          then Some (c # takeWhile is_digit cs, dropWhile is_digit cs)
          else None)"

definition scan_frac :: "pystr \<Rightarrow> pystr \<times> pystr" where
  "scan_frac s =
     (case s of
        c # d # cs \<Rightarrow>
          if c = 46 \<and> is_digit d
          then (d # takeWhile is_digit cs, dropWhile is_digit cs)
          else ([], s)
      | _ \<Rightarrow> ([], s))"

definition scan_exp_digits :: "bool \<Rightarrow> pystr \<Rightarrow> pystr \<Rightarrow> (bool \<times> pystr) option \<times> pystr" where
  "scan_exp_digits neg s whole =
     (if takeWhile is_digit s = [] then (None, whole)
      else (Some (neg, takeWhile is_digit s), dropWhile is_digit s))"

definition scan_exp :: "pystr \<Rightarrow> (bool \<times> pystr) option \<times> pystr" where
  "scan_exp s =
     (case s of
        c # d # cs \<Rightarrow>
          if c = 101 \<or> c = 69 then
            (if d = 45 \<or> d = 43 then scan_exp_digits (d = 45) cs s
             else scan_exp_digits False (d # cs) s)
          else (None, s)
      | _ \<Rightarrow> (None, s))"

definition exp_value :: "(bool \<times> pystr) option \<Rightarrow> int" where
  "exp_value e =
     (case e of
        None \<Rightarrow> 0
      | Some (neg, ds) \<Rightarrow> (if neg then - int (digits_value ds) else int (digits_value ds)))"

definition number_value :: "bool \<Rightarrow> pystr \<Rightarrow> pystr \<Rightarrow> (bool \<times> pystr) option \<Rightarrow> pynum" where
  "number_value neg ip fp ex =
     (if fp = [] \<and> ex = None
      then PInt (if neg then - int (digits_value ip) else int (digits_value ip))
      else PFloat (float_of_dec neg (digits_value (ip @ fp)) (exp_value ex - int (length fp))))"

definition scan_number_from :: "bool \<Rightarrow> pystr \<Rightarrow> (pynum \<times> pystr) option" where
  "scan_number_from neg s =
     (case scan_int_part s of
        None \<Rightarrow> None
      | Some (ip, r1) \<Rightarrow>
          Some (number_value neg ip (fst (scan_frac r1)) (fst (scan_exp (snd (scan_frac r1)))),
                snd (scan_exp (snd (scan_frac r1)))))"

definition scan_number :: "pystr \<Rightarrow> (pynum \<times> pystr) option" where
  "scan_number s =
     (case s of
        [] \<Rightarrow> None
      | c # cs \<Rightarrow> if c = 45 then scan_number_from True cs else scan_number_from False s)"

text \<open>The literals \<open>null\<close>, \<open>true\<close>, \<open>false\<close>, \<open>NaN\<close>, \<open>Infinity\<close>, \<open>-Infinity\<close>.\<close>

definition scan_literal :: "pystr \<Rightarrow> (json \<times> pystr) option" where
  "scan_literal s =
     (if prefix (str_of ''null'') s then Some (JNull, drop 4 s)
      else if prefix (str_of ''true'') s then Some (JBool True, drop 4 s)
      else if prefix (str_of ''false'') s then Some (JBool False, drop 5 s)
      else if prefix (str_of ''NaN'') s then Some (JNum (PFloat NaN), drop 3 s)
      else if prefix (str_of ''Infinity'') s then Some (JNum (PFloat (Infinity False)), drop 8 s)
      else if prefix (str_of ''-Infinity'') s then Some (JNum (PFloat (Infinity True)), drop 9 s)
      else None)"

definition scan_atom :: "pystr \<Rightarrow> py_error + (json \<times> pystr)" where
  "scan_atom s =
     (case scan_literal s of
        Some r \<Rightarrow> Inr r
      | None \<Rightarrow>
          (case scan_number s of
             None \<Rightarrow> Inl JSONDecodeError
           | Some (v, rest) \<Rightarrow> Inr (JNum v, rest)))"

text \<open>
  The scanner of values. \<open>parse_members\<close> starts at the opening quote of a key and reads
  the members up to the closing brace; \<open>parse_items\<close> reads the items of an array up
  to the closing bracket. The first argument bounds the number of nested calls; what
  \<open>json_loads\<close> passes is never used up (\<open>json_loads_error\<close> below).
\<close>

definition expect :: "nat \<Rightarrow> pystr \<Rightarrow> py_error + pystr" where
  "expect c s = (case s of [] \<Rightarrow> Inl JSONDecodeError
                 | d # ds \<Rightarrow> if d = c then Inr ds else Inl JSONDecodeError)"

fun parse_value :: "nat \<Rightarrow> pystr \<Rightarrow> py_error + (json \<times> pystr)"
  and parse_members :: "nat \<Rightarrow> pystr \<Rightarrow> py_error + ((pystr \<times> json) list \<times> pystr)"
  and parse_items :: "nat \<Rightarrow> pystr \<Rightarrow> py_error + (json list \<times> pystr)" where
  "parse_value 0 s = Inl RecursionError"
| "parse_value (Suc n) [] = Inl JSONDecodeError"
| "parse_value (Suc n) (c # cs) =
     (if c = 34 then bind (scanstring cs) (\<lambda>(s, rest). Inr (JStr s, rest))
      else if c = 123 then
        (case skip_ws cs of
           [] \<Rightarrow> Inl JSONDecodeError
         | d # ds \<Rightarrow>
             if d = 125 then Inr (JObj [], ds)
             else bind (parse_members n (d # ds)) (\<lambda>(kvs, rest). Inr (JObj kvs, rest)))
      else if c = 91 then
        (case skip_ws cs of
           [] \<Rightarrow> Inl JSONDecodeError
         | d # ds \<Rightarrow>
             if d = 93 then Inr (JArr [], ds)
             else bind (parse_items n (d # ds)) (\<lambda>(vs, rest). Inr (JArr vs, rest)))
      else scan_atom (c # cs))"
| "parse_members 0 s = Inl RecursionError"
| "parse_members (Suc n) s =
     bind (expect 34 s) (\<lambda>s1.
     bind (scanstring s1) (\<lambda>(key, s2).
     bind (expect 58 (skip_ws s2)) (\<lambda>s3.
     bind (parse_value n (skip_ws s3)) (\<lambda>(v, s4).
       (case skip_ws s4 of
          [] \<Rightarrow> Inl JSONDecodeError
        | d # ds \<Rightarrow>
            if d = 125 then Inr ([(key, v)], ds)
            else if d = 44 then
              bind (parse_members n (skip_ws ds)) (\<lambda>(kvs, rest). Inr ((key, v) # kvs, rest))
            else Inl JSONDecodeError)))))"
| "parse_items 0 s = Inl RecursionError"
| "parse_items (Suc n) s =
     bind (parse_value n s) (\<lambda>(v, s1).
       (case skip_ws s1 of
          [] \<Rightarrow> Inl JSONDecodeError
        | d # ds \<Rightarrow>
            if d = 93 then Inr ([v], ds)
            else if d = 44 then
              bind (parse_items n (skip_ws ds)) (\<lambda>(vs, rest). Inr (v # vs, rest))
            else Inl JSONDecodeError))"

definition json_loads :: "pystr \<Rightarrow> py_error + json" where
  "json_loads s =
     bind (parse_value (Suc (2 * length s)) (skip_ws s)) (\<lambda>(v, rest).
       if skip_ws rest = [] then Inr v else Inl JSONDecodeError)"

subsection \<open>Reading the log\<close>

text \<open>
  \<open>for line in f\<close> on a file opened for reading in text mode: a line ends after
  \<open>'\n'\<close>, \<open>'\r'\<close> or \<open>'\r\n'\<close>, each given as \<open>'\n'\<close>; a last line without an end is
  given as it is. \<open>lines_from cur s\<close> has the characters \<open>cur\<close> of the current line.
\<close>

fun lines_from :: "pystr \<Rightarrow> pystr \<Rightarrow> pystr list" where
  "lines_from cur [] = (if cur = [] then [] else [cur])"
| "lines_from cur [c] =
     (if c = 10 \<or> c = 13 then [cur @ [10]] else [cur @ [c]])"
| "lines_from cur (c # d # cs) =
     (if c = 10 then (cur @ [10]) # lines_from [] (d # cs)
      else if c = 13 then
        (if d = 10 then (cur @ [10]) # lines_from [] cs
         else (cur @ [10]) # lines_from [] (d # cs))
      else lines_from (cur @ [c]) (d # cs))"

definition file_lines :: "pystr \<Rightarrow> pystr list" where
  "file_lines text = lines_from [] text"

text \<open>
  \<open>entry[key]\<close>: a \<open>dict\<close> gives the value or KeyError; anything else that
  \<open>json.loads\<close> returns cannot be indexed by a string (TypeError).
\<close>

definition py_getitem :: "json \<Rightarrow> pystr \<Rightarrow> py_error + json" where
  "py_getitem v key =
     (case v of
        JObj kvs \<Rightarrow> (case map_of (rev kvs) key of None \<Rightarrow> Inl (KeyError key) | Some x \<Rightarrow> Inr x)
      | _ \<Rightarrow> Inl TypeError)"

text \<open>\<open>v.startswith(p)\<close>: only a \<open>str\<close> has the method (AttributeError otherwise).\<close>

definition py_startswith :: "json \<Rightarrow> pystr \<Rightarrow> py_error + bool" where
  "py_startswith v p = (case v of JStr s \<Rightarrow> Inr (startswith s p) | _ \<Rightarrow> Inl AttributeError)"

text \<open>
  \<open>acc += v\<close> with a float \<open>acc\<close>: an \<open>int\<close> is converted, a \<open>bool\<close> counts as the
  \<open>int\<close> 1 or 0, and no other value adds to a float (TypeError).
\<close>

definition one_f64 :: f64 where
  "one_f64 = Finite False (2 ^ 52) (- 52)"

definition py_add :: "f64 \<Rightarrow> json \<Rightarrow> py_error + f64" where
  "py_add acc v =
     (case v of
        JNum n \<Rightarrow> bind (to_float n) (\<lambda>y. Inr (fadd acc y))
      | JBool b \<Rightarrow> Inr (fadd acc (if b then one_f64 else zero_f64))
      | _ \<Rightarrow> Inl TypeError)"

text \<open>
  The test of the reading loop of \<open>today\<close> on one line:
  \<open>json.loads(line)["timestamp"].startswith(today_str)\<close>.
\<close>

definition line_entry :: "pystr \<Rightarrow> pystr \<Rightarrow> py_error + (json \<times> bool)" where
  "line_entry today_str line =
     bind (json_loads line) (\<lambda>entry.
     bind (py_getitem entry (str_of ''timestamp'')) (\<lambda>ts.
     bind (py_startswith ts today_str) (\<lambda>b. Inr (entry, b))))"

text \<open>The reading loop of \<open>today\<close>, with the list \<open>entries\<close> it appends to.\<close>

fun read_entries :: "pystr \<Rightarrow> json list \<Rightarrow> pystr list \<Rightarrow> py_error + json list" where
  "read_entries today_str entries [] = Inr entries"
| "read_entries today_str entries (line # rest) =
     (case line_entry today_str line of
        Inl err \<Rightarrow> Inl err
      | Inr (entry, b) \<Rightarrow>
          read_entries today_str (if b then entries @ [entry] else entries) rest)"

record totals =
  total_cals :: f64
  total_protein :: f64
  total_carbs :: f64
  total_fat :: f64

definition zero_totals :: totals where
  "zero_totals =
     \<lparr>total_cals = zero_f64, total_protein = zero_f64,
      total_carbs = zero_f64, total_fat = zero_f64\<rparr>"

text \<open>
  The body of the second loop of \<open>today\<close>. The row of the table is built first
  (\<open>datetime.fromisoformat\<close>, the lookups and the number formats of \<open>table.add_row\<close>):
  \<open>render_row\<close> is a parameter that returns or raises on an entry. Then the four
  totals are advanced in the order of the source.
\<close>

definition add_entry :: "(json \<Rightarrow> py_error + unit) \<Rightarrow> totals \<Rightarrow> json \<Rightarrow> py_error + totals" where
  "add_entry render_row t entry =
     bind (render_row entry) (\<lambda>_.
     bind (py_getitem entry (str_of ''calories'')) (\<lambda>v1.
     bind (py_add (total_cals t) v1) (\<lambda>c.
     bind (py_getitem entry (str_of ''protein_g'')) (\<lambda>v2.
     bind (py_add (total_protein t) v2) (\<lambda>p.
     bind (py_getitem entry (str_of ''carbs_g'')) (\<lambda>v3.
     bind (py_add (total_carbs t) v3) (\<lambda>cb.
     bind (py_getitem entry (str_of ''fat_g'')) (\<lambda>v4.
     bind (py_add (total_fat t) v4) (\<lambda>f.
       Inr \<lparr>total_cals = c, total_protein = p, total_carbs = cb, total_fat = f\<rparr>)))))))))"

fun sum_entries :: "(json \<Rightarrow> py_error + unit) \<Rightarrow> totals \<Rightarrow> json list \<Rightarrow> py_error + totals" where
  "sum_entries render_row t [] = Inr t"
| "sum_entries render_row t (entry # rest) =
     (case add_entry render_row t entry of
        Inl err \<Rightarrow> Inl err
      | Inr t' \<Rightarrow> sum_entries render_row t' rest)"

text \<open>
  What \<open>today\<close> shows: one of its two messages, or the table of the entries of the day
  with the totals. \<open>today_str\<close> is \<open>datetime.now().date().isoformat()\<close>. An exception
  of \<open>today\<close> is not caught.
\<close>

datatype today_result = NoFoodsLoggedYet | NoFoodsLoggedToday | Table "json list" totals

definition today ::
  "(json \<Rightarrow> py_error + unit) \<Rightarrow> pystr \<Rightarrow> pystr option \<Rightarrow> py_error + today_result" where
  "today render_row today_str file =
     (case file of
        None \<Rightarrow> Inr NoFoodsLoggedYet
      | Some text \<Rightarrow>
          bind (read_entries today_str [] (file_lines text)) (\<lambda>entries.
            if entries = [] then Inr NoFoodsLoggedToday
            else bind (sum_entries render_row zero_totals entries) (\<lambda>t.
                   Inr (Table entries t))))"

section \<open>The operations of the specification on the log\<close>

text \<open>
  \<open>readAll\<close> is the reading part of \<open>today\<close> without the test of the date: no file
  gives the empty sequence, and each line of the file is decoded by \<open>json.loads\<close>, the
  first failure ending the read.
\<close>

fun decode_lines :: "pystr list \<Rightarrow> py_error + json list" where
  "decode_lines [] = Inr []"
| "decode_lines (line # rest) =
     (case json_loads line of
        Inl err \<Rightarrow> Inl err
      | Inr entry \<Rightarrow> bind (decode_lines rest) (\<lambda>es. Inr (entry # es)))"

definition readAll :: "pystr option \<Rightarrow> py_error + json list" where
  "readAll file = (case file of None \<Rightarrow> Inr [] | Some text \<Rightarrow> decode_lines (file_lines text))"

text \<open>
  \<open>entriesForDate\<close> is \<open>today\<close> read as the pair of the rows and the totals: each of the
  two messages stands for no row and the all-zero totals.
\<close>

definition rows_of :: "today_result \<Rightarrow> json list" where
  "rows_of r = (case r of Table rows t \<Rightarrow> rows | _ \<Rightarrow> [])"

definition totals_of :: "today_result \<Rightarrow> totals" where
  "totals_of r = (case r of Table rows t \<Rightarrow> t | _ \<Rightarrow> zero_totals)"

definition entriesForDate ::
  "(json \<Rightarrow> py_error + unit) \<Rightarrow> pystr \<Rightarrow> pystr option \<Rightarrow> py_error + (json list \<times> totals)" where
  "entriesForDate render_row date file =
     bind (today render_row date file) (\<lambda>r. Inr (rows_of r, totals_of r))"

text \<open>
  The date test of the specification on a decoded entry: its stored timestamp is a
  string that starts with the ISO date string.
\<close>

definition on_date :: "pystr \<Rightarrow> json \<Rightarrow> bool" where
  "on_date date entry \<longleftrightarrow>
     (\<exists>ts. py_getitem entry (str_of ''timestamp'') = Inr (JStr ts) \<and> startswith ts date)"

text \<open>
  The sum of one field over rows, in order, from \<open>0.0\<close>: the field-wise sum of the
  specification, with the float addition of the language.
\<close>

fun field_sum :: "pystr \<Rightarrow> f64 \<Rightarrow> json list \<Rightarrow> py_error + f64" where
  "field_sum key acc [] = Inr acc"
| "field_sum key acc (row # rows) =
     (case bind (py_getitem row key) (py_add acc) of
        Inl err \<Rightarrow> Inl err
      | Inr acc' \<Rightarrow> field_sum key acc' rows)"

section \<open>Sample data\<close>

text \<open>
  A log of three entries as \<open>log_food\<close> writes them: 200 kcal and 300 kcal on
  2024-05-01, with 999 kcal of the day before between them.
\<close>

definition sample_line_1 :: pystr where
  \<open>sample_line_1 = str_of ''{"timestamp": "2024-05-01T08:00:00", "food": "Oats", "serving": "40.0 g", "calories": 200.0, "protein_g": 1.5, "carbs_g": 0.0, "fat_g": 0.0}\<newline>''\<close>

definition sample_line_2 :: pystr where
  \<open>sample_line_2 = str_of ''{"timestamp": "2024-04-30T23:59:00", "food": "Cake", "serving": "100.0 g", "calories": 999.0, "protein_g": 0.0, "carbs_g": 0.0, "fat_g": 0.0}\<newline>''\<close>

definition sample_line_3 :: pystr where
  \<open>sample_line_3 = str_of ''{"timestamp": "2024-05-01T12:30:00", "food": "Rice", "serving": "150.0 g", "calories": 300.0, "protein_g": 1.5, "carbs_g": 0.0, "fat_g": 0.0}\<newline>''\<close>

definition sample_log :: pystr where
  "sample_log = sample_line_1 @ sample_line_2 @ sample_line_3"

text \<open>The floats 1.5, 3.0, 200.0, 300.0, 500.0 and 999.0.\<close>

definition f_1_5 :: f64 where "f_1_5 = Finite False 6755399441055744 (- 52)"
definition f_3 :: f64 where "f_3 = Finite False 6755399441055744 (- 51)"
definition f_200 :: f64 where "f_200 = Finite False 7036874417766400 (- 45)"
definition f_300 :: f64 where "f_300 = Finite False 5277655813324800 (- 44)"
definition f_500 :: f64 where "f_500 = Finite False 8796093022208000 (- 44)"
definition f_999 :: f64 where "f_999 = Finite False 8787296929185792 (- 43)"

definition sample_entry_1 :: json where
  "sample_entry_1 = log_entry (str_of ''2024-05-01T08:00:00'') (str_of ''Oats'')
     f_200 f_1_5 zero_f64 zero_f64 (str_of ''40.0 g'')"

definition sample_entry_2 :: json where
  "sample_entry_2 = log_entry (str_of ''2024-04-30T23:59:00'') (str_of ''Cake'')
     f_999 zero_f64 zero_f64 zero_f64 (str_of ''100.0 g'')"

definition sample_entry_3 :: json where
  "sample_entry_3 = log_entry (str_of ''2024-05-01T12:30:00'') (str_of ''Rice'')
     f_300 f_1_5 zero_f64 zero_f64 (str_of ''150.0 g'')"

text \<open>What \<open>float.__repr__\<close> prints for the floats of the sample.\<close>

definition sample_repr :: "f64 \<Rightarrow> pystr" where
  "sample_repr x =
     (if x = f_1_5 then str_of ''1.5''
      else if x = f_200 then str_of ''200.0''
      else if x = f_300 then str_of ''300.0''
      else if x = f_999 then str_of ''999.0''
      else str_of ''0.0'')"

text \<open>A log whose second line is not JSON.\<close>

definition broken_line :: pystr where
  \<open>broken_line = str_of ''{"timestamp": 2024-05-01\<newline>''\<close>

definition broken_log :: pystr where
  "broken_log = sample_line_1 @ broken_line @ sample_line_3"

section \<open>Conditions on an appended entry\<close>

text \<open>A text without a line end: no \<open>'\n'\<close> and no \<open>'\r'\<close>.\<close>

definition single_line :: "pystr \<Rightarrow> bool" where
  "single_line s \<longleftrightarrow> 10 \<notin> set s \<and> 13 \<notin> set s"

text \<open>
  A string that \<open>json.loads\<close> reads back from its escaped form: code points of Unicode
  only, and no high surrogate directly before a low surrogate (the escapes of such a
  pair are read back as one character).
\<close>

fun roundtrip_str :: "pystr \<Rightarrow> bool" where
  "roundtrip_str [] = True"
| "roundtrip_str [c] = (c < 1114112)"
| "roundtrip_str (c # d # cs) =
     (c < 1114112 \<and> \<not> (is_high_surrogate c \<and> is_low_surrogate d) \<and> roundtrip_str (d # cs))"


text \<open>A log file that does not stop in the middle of a line.\<close>

definition ends_with_newline :: "pystr option \<Rightarrow> bool" where
  "ends_with_newline file \<longleftrightarrow>
     (case file of
        None \<Rightarrow> True
      | Some contents \<Rightarrow> contents = [] \<or> last contents = 10 \<or> last contents = 13)"

section \<open>Evaluation and basic facts\<close>

lemma bitlen_numeral:
  "bitlen 0 = 0"
  "bitlen (Suc 0) = 1"
  "bitlen (numeral n) = Suc (bitlen (numeral n div 2))"
  by (simp_all add: bitlen.simps)

lemma show_nat_numeral:
  "show_nat 0 = [48]"
  "show_nat (Suc 0) = [49]"
  "show_nat (numeral n) =
     (if numeral n < (10::nat) then [48 + numeral n]
      else show_nat (numeral n div 10) @ [48 + numeral n mod 10])"
  by (simp_all add: show_nat.simps)

lemmas float_eval =
  float_of_dec_def float_of_int_def round_ratio_def round_f64_def round_at_def pack_def
  ilog2_ratio_def ilog2_adjust_def round_half_even_def round_pick_def round_sum_def
  signed_def fmt1_digits_def bitlen_numeral show_nat_numeral str_of_def
  fmul.simps fadd.simps fmt1.simps

lemma float_1_5: "float_of_dec False 15 (- 1) = Finite False 6755399441055744 (- 52)"
  by (simp add: float_eval)

lemma float_of_int_100: "float_of_int 100 = Inr (Finite False 7036874417766400 (- 46))"
  by (simp add: float_eval)

lemma fmul_100_1_5:
  "fmul (Finite False 7036874417766400 (- 46)) (Finite False 6755399441055744 (- 52))
   = Finite False 5277655813324800 (- 45)"
  by (simp add: float_eval)

lemma fmt1_150: "fmt1 (Finite False 5277655813324800 (- 45)) = str_of ''150.0''"
  by (simp add: float_eval)

lemma float_of_int_overflow: "float_of_int (2 ^ 1024) = Inl OverflowError"
  by (simp add: float_eval)

text \<open>\<open>contains\<close> is the substring test.\<close>

lemma contains_iff: "contains n h \<longleftrightarrow> (\<exists>a b. h = a @ n @ b)"
proof (induction h)
  case Nil
  show ?case by simp
next
  case (Cons c cs)
  show ?case
  proof
    assume "contains n (c # cs)"
    then consider "prefix n (c # cs)" | "contains n cs" by auto
    then show "\<exists>a b. c # cs = a @ n @ b"
    proof cases
      case 1
      then obtain b where "c # cs = n @ b" by (auto simp: prefix_def)
      then have "c # cs = [] @ n @ b" by simp
      then show ?thesis by blast
    next
      case 2
      with Cons obtain a b where "cs = a @ n @ b" by blast
      then have "c # cs = (c # a) @ n @ b" by simp
      then show ?thesis by blast
    qed
  next
    assume "\<exists>a b. c # cs = a @ n @ b"
    then obtain a b where ab: "c # cs = a @ n @ b" by blast
    show "contains n (c # cs)"
    proof (cases a)
      case Nil
      with ab have "prefix n (c # cs)" by (simp add: prefix_def)
      then show ?thesis by simp
    next
      case (Cons x a')
      with ab have "cs = a' @ n @ b" by simp
      with Cons.IH have "contains n cs" by blast
      then show ?thesis by simp
    qed
  qed
qed

lemma bind_simps [simp]:
  "bind (Inl err) f = Inl err"
  "bind (Inr x) f = f x"
  by (simp_all add: bind_def)

section \<open>Extraction\<close>

lemma not_energy:
  "\<not> contains (str_of ''Energy'') (str_of ''Protein'')"
  "\<not> contains (str_of ''Energy'') (str_of ''Carbohydrate, by difference'')"
  "\<not> contains (str_of ''Energy'') (str_of ''Total lipid (fat)'')"
  by (simp_all add: str_of_def)

lemma names_differ:
  "str_of ''Protein'' \<noteq> str_of ''Carbohydrate, by difference''"
  "str_of ''Protein'' \<noteq> str_of ''Total lipid (fat)''"
  "str_of ''Carbohydrate, by difference'' \<noteq> str_of ''Total lipid (fat)''"
  "str_of ''Carbohydrate, by difference'' \<noteq> str_of ''Protein''"
  "str_of ''Total lipid (fat)'' \<noteq> str_of ''Protein''"
  "str_of ''Total lipid (fat)'' \<noteq> str_of ''Carbohydrate, by difference''"
  by (simp_all add: str_of_def)

text \<open>
  The branches of the loop body do not interfere: no exact name of the later branches
  contains "Energy", and the three names differ.
\<close>

lemma log_step_fields:
  "calories (log_step acc n) = (if calories_rule n then amount_of n else calories acc)"
  "protein (log_step acc n) = (if protein_rule n then amount_of n else protein acc)"
  "carbs (log_step acc n) = (if carbs_rule n then amount_of n else carbs acc)"
  "fat (log_step acc n) = (if fat_rule n then amount_of n else fat acc)"
  by (auto simp: log_step_def calories_rule_def protein_rule_def carbs_rule_def
      fat_rule_def not_energy names_differ)

lemma quick_step_eq: "quick_step = log_step"
  by (rule ext, rule ext) (simp add: quick_step_def log_step_def)

lemma quick_extract_eq: "quick_extract = log_extract"
  by (rule ext) (simp add: quick_extract_def log_extract_def quick_step_eq)

lemma quick_scale_eq: "quick_scale = log_scale"
  by (rule ext, rule ext, rule ext, rule ext) (simp add: quick_scale_def log_scale_def)

text \<open>Each variable ends as the amount of the last reading of its rule, if there is one.\<close>

lemma foldl_log_step:
  "calories (foldl log_step acc ns) =
     (if filter calories_rule ns = [] then calories acc
      else amount_of (last (filter calories_rule ns)))"
  "protein (foldl log_step acc ns) =
     (if filter protein_rule ns = [] then protein acc
      else amount_of (last (filter protein_rule ns)))"
  "carbs (foldl log_step acc ns) =
     (if filter carbs_rule ns = [] then carbs acc
      else amount_of (last (filter carbs_rule ns)))"
  "fat (foldl log_step acc ns) =
     (if filter fat_rule ns = [] then fat acc
      else amount_of (last (filter fat_rule ns)))"
  by (induction ns rule: rev_induct) (simp_all add: log_step_fields)

lemmas reading_eval =
  log_extract_def get_or_def log_step_def zero_summary_def reading_def nutrient_name_of_def
  unit_name_of_def amount_of_def str_of_def calories_rule_def protein_rule_def
  carbs_rule_def fat_rule_def

text \<open>
  C1, as stated: with several readings of one rule, the field is the amount of the first.
  It fails on two "Protein" readings of amounts 1 and 2: the loop has no \<open>break\<close>,
  every match assigns the variable again, and the field ends as 2.
\<close>

theorem extract_first_match_counterexample:
  "filter protein_rule [reading ''Protein'' ''g'' (PInt 1), reading ''Protein'' ''g'' (PInt 2)]
     = [reading ''Protein'' ''g'' (PInt 1), reading ''Protein'' ''g'' (PInt 2)]
   \<and> protein (log_extract
        (Some [reading ''Protein'' ''g'' (PInt 1), reading ''Protein'' ''g'' (PInt 2)]))
     \<noteq> amount_of (hd (filter protein_rule
        [reading ''Protein'' ''g'' (PInt 1), reading ''Protein'' ''g'' (PInt 2)]))"
  by (simp add: reading_eval)

text \<open>
  C1, amended: for every nutrient sequence with at least one reading of a field's rule,
  the extraction of \<open>log\<close> and of \<open>quick\<close> returns for that field the amount of the LAST
  such reading in sequence order; the earlier matches are overwritten.
\<close>

theorem extract_last_match:
  "(filter calories_rule ns \<noteq> [] \<longrightarrow>
      calories (log_extract (Some ns)) = amount_of (last (filter calories_rule ns))
      \<and> calories (quick_extract (Some ns)) = amount_of (last (filter calories_rule ns)))
   \<and> (filter protein_rule ns \<noteq> [] \<longrightarrow>
      protein (log_extract (Some ns)) = amount_of (last (filter protein_rule ns))
      \<and> protein (quick_extract (Some ns)) = amount_of (last (filter protein_rule ns)))
   \<and> (filter carbs_rule ns \<noteq> [] \<longrightarrow>
      carbs (log_extract (Some ns)) = amount_of (last (filter carbs_rule ns))
      \<and> carbs (quick_extract (Some ns)) = amount_of (last (filter carbs_rule ns)))
   \<and> (filter fat_rule ns \<noteq> [] \<longrightarrow>
      fat (log_extract (Some ns)) = amount_of (last (filter fat_rule ns))
      \<and> fat (quick_extract (Some ns)) = amount_of (last (filter fat_rule ns)))"
  by (simp add: quick_extract_eq log_extract_def get_or_def foldl_log_step)

theorem extract_last_match_witness:
  "filter protein_rule
     [reading ''Protein'' ''g'' (PInt 1), reading ''Energy'' ''kcal'' (PInt 89),
      reading ''Protein'' ''g'' (PInt 2)] \<noteq> []
   \<and> protein (log_extract (Some
       [reading ''Protein'' ''g'' (PInt 1), reading ''Energy'' ''kcal'' (PInt 89),
        reading ''Protein'' ''g'' (PInt 2)])) = PInt 2"
  using extract_last_match
    [of "[reading ''Protein'' ''g'' (PInt 1), reading ''Energy'' ''kcal'' (PInt 89),
          reading ''Protein'' ''g'' (PInt 2)]"]
  by (simp add: reading_eval)

text \<open>
  C2: the calories field is the initial \<open>0.0\<close> or the amount of a reading whose name
  contains "Energy" and whose unit contains "kcal"; so a sequence with no reading whose
  unit contains "kcal" (an "Energy" reading in "kJ", say) leaves calories at \<open>0.0\<close>.
\<close>

theorem calories_only_energy_kcal:
  "(calories (log_extract (Some ns)) = PFloat zero_f64
    \<or> (\<exists>n \<in> set ns. contains (str_of ''Energy'') (nutrient_name_of n)
          \<and> contains (str_of ''kcal'') (unit_name_of n)
          \<and> calories (log_extract (Some ns)) = amount_of n))
   \<and> ((\<forall>n \<in> set ns. \<not> contains (str_of ''kcal'') (unit_name_of n)) \<longrightarrow>
        calories (log_extract (Some ns)) = PFloat zero_f64)"
proof
  show "calories (log_extract (Some ns)) = PFloat zero_f64
    \<or> (\<exists>n \<in> set ns. contains (str_of ''Energy'') (nutrient_name_of n)
          \<and> contains (str_of ''kcal'') (unit_name_of n)
          \<and> calories (log_extract (Some ns)) = amount_of n)"
  proof (cases "filter calories_rule ns = []")
    case True
    then show ?thesis
      by (simp add: log_extract_def get_or_def foldl_log_step zero_summary_def)
  next
    case False
    then have "last (filter calories_rule ns) \<in> set (filter calories_rule ns)"
      by (rule last_in_set)
    then have "last (filter calories_rule ns) \<in> set ns"
      and "calories_rule (last (filter calories_rule ns))"
      by simp_all
    moreover have "calories (log_extract (Some ns)) = amount_of (last (filter calories_rule ns))"
      using False by (simp add: log_extract_def get_or_def foldl_log_step)
    ultimately show ?thesis
      unfolding calories_rule_def by blast
  qed
next
  show "(\<forall>n \<in> set ns. \<not> contains (str_of ''kcal'') (unit_name_of n)) \<longrightarrow>
        calories (log_extract (Some ns)) = PFloat zero_f64"
  proof
    assume "\<forall>n \<in> set ns. \<not> contains (str_of ''kcal'') (unit_name_of n)"
    then have "filter calories_rule ns = []"
      by (simp add: filter_empty_conv calories_rule_def)
    then show "calories (log_extract (Some ns)) = PFloat zero_f64"
      by (simp add: log_extract_def get_or_def foldl_log_step zero_summary_def)
  qed
qed

theorem calories_only_energy_kcal_witness:
  "\<not> contains (str_of ''kcal'') (unit_name_of (reading ''Energy'' ''kJ'' (PInt 1046)))
   \<and> contains (str_of ''Energy'') (nutrient_name_of (reading ''Energy'' ''kJ'' (PInt 1046)))
   \<and> calories (log_extract (Some [reading ''Energy'' ''kJ'' (PInt 1046)])) = PFloat zero_f64"
  using calories_only_energy_kcal [of "[reading ''Energy'' ''kJ'' (PInt 1046)]"]
  by (simp add: reading_def nutrient_name_of_def unit_name_of_def get_or_def str_of_def)

text \<open>
  C6: with the key "foodNutrients" absent, or with an empty sequence, the extraction
  returns the all-zero summary. The extraction has no failing branch.
\<close>

theorem extract_empty_or_absent:
  "log_extract None =
     \<lparr>calories = PFloat zero_f64, protein = PFloat zero_f64,
      carbs = PFloat zero_f64, fat = PFloat zero_f64\<rparr>
   \<and> log_extract (Some []) =
     \<lparr>calories = PFloat zero_f64, protein = PFloat zero_f64,
      carbs = PFloat zero_f64, fat = PFloat zero_f64\<rparr>"
  by (simp add: log_extract_def get_or_def zero_summary_def)

section \<open>Scaling\<close>

lemma to_float_simps [simp]:
  "to_float (PFloat x) = Inr x"
  "to_float (PInt n) = float_of_int n"
  by (simp_all add: to_float_def)

text \<open>
  C3, as stated, for every summary: a field that is an \<open>int\<close> beyond the float range
  (a JSON integer literal of 309 digits) makes its product raise OverflowError, and
  no scaled summary is returned.
\<close>

theorem scale_overflow_counterexample:
  "log_scale
     \<lparr>calories = PInt (2 ^ 1024), protein = PFloat zero_f64,
      carbs = PFloat zero_f64, fat = PFloat zero_f64\<rparr>
     (PInt 100) (str_of ''g'') (float_of_dec False 15 (- 1))
   = Inl OverflowError"
  by (simp only: log_scale_def py_mul_def summary.simps to_float_simps
      float_of_int_overflow bind_simps)

text \<open>A float converts to itself; only an \<open>int\<close> can fail to convert, with OverflowError.\<close>

lemma to_float_error: "to_float v = Inl e \<Longrightarrow> e = OverflowError \<and> (\<exists>n. v = PInt n)"
  by (cases v) (auto simp: float_of_int_def split: f64.splits)

lemma py_mul_Inr: "to_float v = Inr y \<Longrightarrow> py_mul v x = Inr (fmul y x)"
  by (simp add: py_mul_def)

lemma py_mul_overflow: "\<forall>y. to_float v \<noteq> Inr y \<Longrightarrow> py_mul v x = Inl OverflowError"
proof -
  assume a: "\<forall>y. to_float v \<noteq> Inr y"
  then obtain e where e: "to_float v = Inl e"
    by (cases "to_float v") auto
  with to_float_error have "e = OverflowError" by blast
  with e show ?thesis by (simp add: py_mul_def)
qed

lemma py_mul_cases: "py_mul v x = Inl OverflowError \<or> (\<exists>y. py_mul v x = Inr y)"
proof (cases "to_float v")
  case (Inl e)
  with to_float_error have "e = OverflowError" by blast
  with Inl show ?thesis by (simp add: py_mul_def)
next
  case (Inr y)
  then show ?thesis by (simp add: py_mul_def)
qed

text \<open>
  C3, amended: for every summary and serving size whose values are floats, or integers
  that convert to a float, and every serving unit and servings value, the scaling
  returns the four products of the fields by \<open>servings\<close> and the serving text
  \<open>format(servingSize * servings, '.1f')\<close>, a space and the unit; and whenever one of
  the five values does not convert to a float (only an integer beyond the float range
  does not), the scaling raises OverflowError and returns nothing.
\<close>

theorem scale_fields_and_text:
  "(to_float (calories s) = Inr c \<and> to_float (protein s) = Inr p
      \<and> to_float (carbs s) = Inr cb \<and> to_float (fat s) = Inr f
      \<and> to_float serving_size = Inr sz \<longrightarrow>
    log_scale s serving_size serving_unit servings =
      Inr \<lparr>s_calories = fmul c servings, s_protein = fmul p servings,
           s_carbs = fmul cb servings, s_fat = fmul f servings,
           serving_text = fmt1 (fmul sz servings) @ str_of '' '' @ serving_unit\<rparr>)
   \<and> ((\<forall>y. to_float (calories s) \<noteq> Inr y) \<or> (\<forall>y. to_float (protein s) \<noteq> Inr y)
      \<or> (\<forall>y. to_float (carbs s) \<noteq> Inr y) \<or> (\<forall>y. to_float (fat s) \<noteq> Inr y)
      \<or> (\<forall>y. to_float serving_size \<noteq> Inr y) \<longrightarrow>
    log_scale s serving_size serving_unit servings = Inl OverflowError)
   \<and> (\<forall>x. to_float (PFloat x) = Inr x)
   \<and> (\<forall>v e. to_float v = Inl e \<longrightarrow> e = OverflowError \<and> (\<exists>n. v = PInt n))"
proof -
  have ok: "log_scale s serving_size serving_unit servings =
      Inr \<lparr>s_calories = fmul c servings, s_protein = fmul p servings,
           s_carbs = fmul cb servings, s_fat = fmul f servings,
           serving_text = fmt1 (fmul sz servings) @ str_of '' '' @ serving_unit\<rparr>"
    if "to_float (calories s) = Inr c \<and> to_float (protein s) = Inr p
      \<and> to_float (carbs s) = Inr cb \<and> to_float (fat s) = Inr f
      \<and> to_float serving_size = Inr sz"
    using that by (simp add: log_scale_def py_mul_Inr)
  have bad: "log_scale s serving_size serving_unit servings = Inl OverflowError"
    if a: "(\<forall>y. to_float (calories s) \<noteq> Inr y) \<or> (\<forall>y. to_float (protein s) \<noteq> Inr y)
      \<or> (\<forall>y. to_float (carbs s) \<noteq> Inr y) \<or> (\<forall>y. to_float (fat s) \<noteq> Inr y)
      \<or> (\<forall>y. to_float serving_size \<noteq> Inr y)"
  proof -
    note c = py_mul_cases [of "calories s" servings]
      and p = py_mul_cases [of "protein s" servings]
      and cb = py_mul_cases [of "carbs s" servings]
      and f = py_mul_cases [of "fat s" servings]
    from a consider "\<forall>y. to_float (calories s) \<noteq> Inr y"
      | "\<forall>y. to_float (protein s) \<noteq> Inr y"
      | "\<forall>y. to_float (carbs s) \<noteq> Inr y" | "\<forall>y. to_float (fat s) \<noteq> Inr y"
      | "\<forall>y. to_float serving_size \<noteq> Inr y" by blast
    then show ?thesis
    proof cases
      case 1
      from py_mul_overflow [OF 1] show ?thesis
        by (simp add: log_scale_def)
    next
      case 2
      from py_mul_overflow [OF 2] c show ?thesis
        by (auto simp: log_scale_def)
    next
      case 3
      from py_mul_overflow [OF 3] c p show ?thesis
        by (auto simp: log_scale_def)
    next
      case 4
      from py_mul_overflow [OF 4] c p cb show ?thesis
        by (auto simp: log_scale_def)
    next
      case 5
      from py_mul_overflow [OF 5] c p cb f show ?thesis
        by (auto simp: log_scale_def)
    qed
  qed
  have fl: "\<forall>x. to_float (PFloat x) = Inr x" by simp
  have er: "\<forall>v e. to_float v = Inl e \<longrightarrow> e = OverflowError \<and> (\<exists>n. v = PInt n)"
    using to_float_error by blast
  from ok bad fl er show ?thesis by blast
qed

text \<open>
  The instance of the specification: \<open>scale(s, 100, "g", 1.5)\<close> gives "150.0 g"; and
  a protein amount of \<open>2^1024\<close> raises OverflowError.
\<close>

theorem scale_fields_and_text_witness:
  "to_float (PInt 100) = Inr (Finite False 7036874417766400 (- 46))
   \<and> to_float (PFloat zero_f64) = Inr zero_f64
   \<and> (\<exists>r. log_scale
          \<lparr>calories = PInt 100, protein = PFloat zero_f64,
           carbs = PFloat zero_f64, fat = PFloat zero_f64\<rparr>
          (PInt 100) (str_of ''g'') (float_of_dec False 15 (- 1)) = Inr r
        \<and> s_calories r = Finite False 5277655813324800 (- 45)
        \<and> serving_text r = str_of ''150.0 g'')
   \<and> to_float (PInt (2 ^ 1024)) = Inl OverflowError
   \<and> log_scale
        \<lparr>calories = PInt 100, protein = PInt (2 ^ 1024),
         carbs = PFloat zero_f64, fat = PFloat zero_f64\<rparr>
        (PInt 100) (str_of ''g'') (float_of_dec False 15 (- 1)) = Inl OverflowError"
proof -
  have ok: "\<exists>r. log_scale
          \<lparr>calories = PInt 100, protein = PFloat zero_f64,
           carbs = PFloat zero_f64, fat = PFloat zero_f64\<rparr>
          (PInt 100) (str_of ''g'') (float_of_dec False 15 (- 1)) = Inr r
        \<and> s_calories r = Finite False 5277655813324800 (- 45)
        \<and> serving_text r = str_of ''150.0 g''"
    using scale_fields_and_text
      [of "\<lparr>calories = PInt 100, protein = PFloat zero_f64,
            carbs = PFloat zero_f64, fat = PFloat zero_f64\<rparr>"
          "Finite False 7036874417766400 (- 46)" zero_f64 zero_f64 zero_f64
          "PInt 100" "Finite False 7036874417766400 (- 46)"
          "str_of ''g''" "float_of_dec False 15 (- 1)"]
    by (simp add: float_of_int_100 float_1_5 fmul_100_1_5 fmt1_150 str_of_def)
  have ov: "to_float (PInt (2 ^ 1024)) = Inl OverflowError"
    by (simp only: to_float_simps float_of_int_overflow)
  then have no: "\<forall>y. to_float (protein
        \<lparr>calories = PInt 100, protein = PInt (2 ^ 1024),
         carbs = PFloat zero_f64, fat = PFloat zero_f64\<rparr>) \<noteq> Inr y"
    by (simp only: summary.simps) simp
  have bad: "log_scale
        \<lparr>calories = PInt 100, protein = PInt (2 ^ 1024),
         carbs = PFloat zero_f64, fat = PFloat zero_f64\<rparr>
        (PInt 100) (str_of ''g'') (float_of_dec False 15 (- 1)) = Inl OverflowError"
    using scale_fields_and_text
      [of "\<lparr>calories = PInt 100, protein = PInt (2 ^ 1024),
            carbs = PFloat zero_f64, fat = PFloat zero_f64\<rparr>"
          c p cb f "PInt 100" sz "str_of ''g''" "float_of_dec False 15 (- 1)"] no
    by blast
  from ok ov bad show ?thesis
    by (simp only: to_float_simps float_of_int_100 simp_thms)
qed

section \<open>The two copies of the logging path\<close>

text \<open>
  C10: the extraction and the scaling of \<open>quick\<close> are the functions of \<open>log\<close>, and once
  the search has given a first result, \<open>quick\<close> does what \<open>log\<close> does on the FDC id of
  that result: the same entry appended to the same file, or the same exception.
\<close>

theorem quick_equals_log:
  "quick_extract = log_extract
   \<and> quick_scale = log_scale
   \<and> (search_food query 1 = Inr results \<and> get_or (foods results) [] = hit # others \<longrightarrow>
        quick search_food get_food_details float_repr now query servings file
        = log get_food_details float_repr now (fdcId hit) servings file)"
  by (simp add: quick_extract_eq quick_scale_eq quick_def log_def)

theorem quick_equals_log_witness:
  "(\<lambda>q n. Inr \<lparr>foods = Some [\<lparr>fdcId = 173944\<rparr>]\<rparr>) (str_of ''banana'') (1::nat)
     = (Inr \<lparr>foods = Some [\<lparr>fdcId = 173944\<rparr>]\<rparr> :: py_error + search_results)
   \<and> get_or (foods \<lparr>foods = Some [\<lparr>fdcId = 173944\<rparr>]\<rparr>) [] = [\<lparr>fdcId = 173944\<rparr>]
   \<and> quick (\<lambda>q n. Inr \<lparr>foods = Some [\<lparr>fdcId = 173944\<rparr>]\<rparr>)
        (\<lambda>i. Inr \<lparr>description = Some (str_of ''Bananas, raw''), servingSize = None,
                   servingUnit = None,
                   foodNutrients = Some [reading ''Energy'' ''kcal'' (PInt 89)]\<rparr>)
        fmt1 (str_of ''2024-05-01T08:30:00'') (str_of ''banana'')
        (float_of_dec False 15 (- 1)) None
     = log (\<lambda>i. Inr \<lparr>description = Some (str_of ''Bananas, raw''), servingSize = None,
                   servingUnit = None,
                   foodNutrients = Some [reading ''Energy'' ''kcal'' (PInt 89)]\<rparr>)
        fmt1 (str_of ''2024-05-01T08:30:00'') 173944
        (float_of_dec False 15 (- 1)) None"
  using quick_equals_log
    [of "\<lambda>q n. Inr \<lparr>foods = Some [\<lparr>fdcId = 173944\<rparr>]\<rparr>" "str_of ''banana''"
        "\<lparr>foods = Some [\<lparr>fdcId = 173944\<rparr>]\<rparr>" "\<lparr>fdcId = 173944\<rparr>" "[]"]
  by (simp add: get_or_def)

section \<open>Reading and aggregating the log\<close>

lemma bind_eq_Inr: "bind r f = Inr y \<longleftrightarrow> (\<exists>x. r = Inr x \<and> f x = Inr y)"
  by (cases r) simp_all

lemma bind_eq_Inl: "bind r f = Inl e \<longleftrightarrow> r = Inl e \<or> (\<exists>x. r = Inr x \<and> f x = Inl e)"
  by (cases r) auto

lemma py_startswith_Inr: "py_startswith v p = Inr b \<Longrightarrow> \<exists>s. v = JStr s \<and> b = startswith s p"
  by (cases v) (simp_all add: py_startswith_def)

text \<open>A line that passes the test of the reading loop decodes, and the test is the date test.\<close>

lemma line_entry_Inr:
  assumes "line_entry date line = Inr (entry, b)"
  shows "json_loads line = Inr entry \<and> b = on_date date entry"
proof -
  from assms obtain ts where e: "json_loads line = Inr entry"
    and g: "py_getitem entry (str_of ''timestamp'') = Inr ts"
    and s: "py_startswith ts date = Inr b"
    by (auto simp: line_entry_def bind_eq_Inr)
  from s obtain str where "ts = JStr str" and "b = startswith str date"
    using py_startswith_Inr by blast
  with g have "b = on_date date entry"
    by (simp add: on_date_def)
  with e show ?thesis by simp
qed

lemma read_entries_filter:
  "read_entries date acc ls = Inr entries \<Longrightarrow>
     \<exists>es. decode_lines ls = Inr es \<and> entries = acc @ filter (on_date date) es"
proof (induction ls arbitrary: acc)
  case Nil
  then show ?case by simp
next
  case (Cons line rest)
  from Cons.prems obtain entry b where le: "line_entry date line = Inr (entry, b)"
    and rec: "read_entries date (if b then acc @ [entry] else acc) rest = Inr entries"
    by (auto split: sum.splits)
  from line_entry_Inr [OF le] have dec: "json_loads line = Inr entry"
    and b: "b = on_date date entry" by simp_all
  from Cons.IH [OF rec] obtain es where es: "decode_lines rest = Inr es"
    and ent: "entries = (if b then acc @ [entry] else acc) @ filter (on_date date) es"
    by blast
  have "decode_lines (line # rest) = Inr (entry # es)"
    using dec es by simp
  moreover have "entries = acc @ filter (on_date date) (entry # es)"
    using ent b by simp
  ultimately show ?case by blast
qed

lemma add_entry_fields:
  assumes "add_entry render_row t entry = Inr t'"
  shows "bind (py_getitem entry (str_of ''calories'')) (py_add (total_cals t)) = Inr (total_cals t')"
    and "bind (py_getitem entry (str_of ''protein_g'')) (py_add (total_protein t)) = Inr (total_protein t')"
    and "bind (py_getitem entry (str_of ''carbs_g'')) (py_add (total_carbs t)) = Inr (total_carbs t')"
    and "bind (py_getitem entry (str_of ''fat_g'')) (py_add (total_fat t)) = Inr (total_fat t')"
  using assms by (auto simp: add_entry_def bind_eq_Inr)

lemma sum_entries_field_sum:
  "sum_entries render_row t rows = Inr t' \<Longrightarrow>
     field_sum (str_of ''calories'') (total_cals t) rows = Inr (total_cals t')
     \<and> field_sum (str_of ''protein_g'') (total_protein t) rows = Inr (total_protein t')
     \<and> field_sum (str_of ''carbs_g'') (total_carbs t) rows = Inr (total_carbs t')
     \<and> field_sum (str_of ''fat_g'') (total_fat t) rows = Inr (total_fat t')"
proof (induction rows arbitrary: t)
  case Nil
  then show ?case by simp
next
  case (Cons row rows)
  from Cons.prems obtain t1 where a: "add_entry render_row t row = Inr t1"
    and r: "sum_entries render_row t1 rows = Inr t'"
    by (auto split: sum.splits)
  from Cons.IH [OF r] add_entry_fields [OF a] show ?case by simp
qed

text \<open>
  C5: when \<open>entriesForDate\<close> returns, the whole log decodes, the rows are exactly the
  decoded entries whose stored timestamp starts with the date string, in the order of
  the log, and each total is the sum of its field over the rows.
\<close>

theorem entries_for_date_filter_and_totals:
  assumes "entriesForDate render_row date file = Inr (rows, t)"
  shows "\<exists>es. readAll file = Inr es
           \<and> rows = filter (on_date date) es
           \<and> field_sum (str_of ''calories'') zero_f64 rows = Inr (total_cals t)
           \<and> field_sum (str_of ''protein_g'') zero_f64 rows = Inr (total_protein t)
           \<and> field_sum (str_of ''carbs_g'') zero_f64 rows = Inr (total_carbs t)
           \<and> field_sum (str_of ''fat_g'') zero_f64 rows = Inr (total_fat t)"
proof (cases "file")
  case None
  with assms show ?thesis
    by (auto simp: entriesForDate_def today_def readAll_def rows_of_def totals_of_def
        zero_totals_def)
next
  case (Some contents)
  from assms Some obtain entries where rd: "read_entries date [] (file_lines contents) = Inr entries"
    by (auto simp: entriesForDate_def today_def bind_eq_Inr)
  from read_entries_filter [OF rd] obtain es where es: "decode_lines (file_lines contents) = Inr es"
    and ent: "entries = filter (on_date date) es" by auto
  show ?thesis
  proof (cases "entries = []")
    case True
    with assms Some rd have "rows = []" "t = zero_totals"
      by (auto simp: entriesForDate_def today_def bind_eq_Inr rows_of_def totals_of_def)
    with True es ent Some show ?thesis
      by (simp add: readAll_def zero_totals_def)
  next
    case False
    with assms Some rd obtain t' where s: "sum_entries render_row zero_totals entries = Inr t'"
      and "rows = entries" "t = t'"
      by (auto simp: entriesForDate_def today_def bind_eq_Inr rows_of_def totals_of_def)
    with sum_entries_field_sum [OF s] es ent Some show ?thesis
      by (simp add: readAll_def zero_totals_def)
  qed
qed

text \<open>
  C7: with no log file \<open>readAll\<close> returns the empty sequence and \<open>today\<close> its first
  message, not an exception; and on no file or an empty file \<open>entriesForDate\<close> returns
  no row and the all-zero totals.
\<close>

theorem no_log_is_empty:
  "readAll None = Inr []
   \<and> today render_row date None = Inr NoFoodsLoggedYet
   \<and> entriesForDate render_row date None =
       Inr ([], \<lparr>total_cals = zero_f64, total_protein = zero_f64,
                 total_carbs = zero_f64, total_fat = zero_f64\<rparr>)
   \<and> readAll (Some []) = Inr []
   \<and> entriesForDate render_row date (Some []) =
       Inr ([], \<lparr>total_cals = zero_f64, total_protein = zero_f64,
                 total_carbs = zero_f64, total_fat = zero_f64\<rparr>)"
  by (simp add: readAll_def today_def entriesForDate_def rows_of_def totals_of_def
      zero_totals_def file_lines_def)

lemma parse_numeral_fuel:
  "parse_value (numeral k) [] = Inl JSONDecodeError"
  "parse_value (numeral k) (c # cs) =
     (if c = 34 then bind (scanstring cs) (\<lambda>(s, rest). Inr (JStr s, rest))
      else if c = 123 then
        (case skip_ws cs of
           [] \<Rightarrow> Inl JSONDecodeError
         | d # ds \<Rightarrow>
             if d = 125 then Inr (JObj [], ds)
             else bind (parse_members (pred_numeral k) (d # ds))
                    (\<lambda>(kvs, rest). Inr (JObj kvs, rest)))
      else if c = 91 then
        (case skip_ws cs of
           [] \<Rightarrow> Inl JSONDecodeError
         | d # ds \<Rightarrow>
             if d = 93 then Inr (JArr [], ds)
             else bind (parse_items (pred_numeral k) (d # ds))
                    (\<lambda>(vs, rest). Inr (JArr vs, rest)))
      else scan_atom (c # cs))"
  "parse_members (numeral k) s =
     bind (expect 34 s) (\<lambda>s1.
     bind (scanstring s1) (\<lambda>(key, s2).
     bind (expect 58 (skip_ws s2)) (\<lambda>s3.
     bind (parse_value (pred_numeral k) (skip_ws s3)) (\<lambda>(v, s4).
       (case skip_ws s4 of
          [] \<Rightarrow> Inl JSONDecodeError
        | d # ds \<Rightarrow>
            if d = 125 then Inr ([(key, v)], ds)
            else if d = 44 then
              bind (parse_members (pred_numeral k) (skip_ws ds))
                (\<lambda>(kvs, rest). Inr ((key, v) # kvs, rest))
            else Inl JSONDecodeError)))))"
  "parse_items (numeral k) s =
     bind (parse_value (pred_numeral k) s) (\<lambda>(v, s1).
       (case skip_ws s1 of
          [] \<Rightarrow> Inl JSONDecodeError
        | d # ds \<Rightarrow>
            if d = 93 then Inr ([v], ds)
            else if d = 44 then
              bind (parse_items (pred_numeral k) (skip_ws ds))
                (\<lambda>(vs, rest). Inr (v # vs, rest))
            else Inl JSONDecodeError))"
  by (subst numeral_eq_Suc, simp only: parse_value.simps parse_members.simps
      parse_items.simps)+

lemmas scan_eval =
  parse_numeral_fuel
  json_loads_def skip_ws_def is_ws_def is_digit_def digits_value_def hex_value_def
  hex4_value_def simple_escape_def is_high_surrogate_def is_low_surrogate_def
  join_surrogates_def push_char_def scan_u4_def scan_low_def scan_escape_def
  scan_int_part_def scan_frac_def scan_exp_digits_def
  scan_exp_def exp_value_def number_value_def scan_number_from_def scan_number_def
  scan_literal_def scan_atom_def expect_def

lemmas today_eval =
  entriesForDate_def today_def readAll_def rows_of_def totals_of_def zero_totals_def
  file_lines_def line_entry_def add_entry_def py_getitem_def py_startswith_def py_add_def
  startswith_def to_float_def zero_f64_def one_f64_def

section \<open>The scanner consumes its input\<close>

lemma scan_u4_length: "scan_u4 s = Some (v, rest) \<Longrightarrow> length s = length rest + 4"
  by (auto simp: scan_u4_def split: list.splits option.splits)

lemma scan_low_length: "scan_low hi s = Inr (c, rest) \<Longrightarrow> length rest \<le> length s"
  by (auto simp: scan_low_def split: list.splits option.splits if_splits
      dest!: scan_u4_length)

lemma scan_escape_length: "scan_escape s = Inr (c, rest) \<Longrightarrow> length rest < length s"
  by (auto simp: scan_escape_def split: list.splits option.splits if_splits
      dest!: scan_u4_length scan_low_length)

lemma skip_ws_length: "length (skip_ws s) \<le> length s"
  by (simp add: skip_ws_def length_dropWhile_le)

lemma push_char_Inr:
  "push_char c r = Inr (v, rest) \<longleftrightarrow> (\<exists>s. r = Inr (s, rest) \<and> v = c # s)"
  by (cases r) (auto simp: push_char_def)

lemma push_char_Inl: "push_char c r = Inl e \<longleftrightarrow> r = Inl e"
  by (cases r) (auto simp: push_char_def)

lemma scanstring_consumes: "scanstring s = Inr (v, rest) \<Longrightarrow> length rest < length s"
proof (induction s arbitrary: v rest rule: scanstring.induct)
  case 1
  then show ?case by simp
next
  case (2 c cs)
  consider "c = 34" | "c \<noteq> 34" "c = 92" | "c \<noteq> 34" "c \<noteq> 92" "\<not> c \<le> 31"
    using "2.prems" by (auto split: if_splits)
  then show ?case
  proof cases
    case 1
    with "2.prems" show ?thesis by simp
  next
    case 2
    with "2.prems" obtain ch r1 where esc: "scan_escape cs = Inr (ch, r1)"
      and p: "push_char ch (scanstring r1) = Inr (v, rest)"
      by (auto split: sum.splits)
    from p obtain s' where "scanstring r1 = Inr (s', rest)"
      by (auto simp: push_char_Inr)
    with "2.IH"(1) [OF 2 esc refl] have "length rest < length r1" by blast
    with scan_escape_length [OF esc] show ?thesis by simp
  next
    case 3
    with "2.prems" obtain s' where "scanstring cs = Inr (s', rest)"
      by (auto simp: push_char_Inr)
    with "2.IH"(2) [OF 3] have "length rest < length cs" by blast
    then show ?thesis by simp
  qed
qed

lemma scan_low_error: "scan_low hi s = Inl e \<Longrightarrow> e = JSONDecodeError"
  by (auto simp: scan_low_def split: list.splits option.splits if_splits)

lemma scan_escape_error: "scan_escape s = Inl e \<Longrightarrow> e = JSONDecodeError"
  by (auto simp: scan_escape_def split: list.splits option.splits if_splits
      dest: scan_low_error)

lemma scanstring_error: "scanstring s = Inl e \<Longrightarrow> e = JSONDecodeError"
proof (induction s rule: scanstring.induct)
  case 1
  then show ?case by simp
next
  case (2 c cs)
  consider "c = 34" | "c \<noteq> 34" "c = 92" | "c \<noteq> 34" "c \<noteq> 92" "c \<le> 31"
    | "c \<noteq> 34" "c \<noteq> 92" "\<not> c \<le> 31"
    by blast
  then show ?case
  proof cases
    case 1
    with "2.prems" show ?thesis by simp
  next
    case 2
    show ?thesis
    proof (cases "scan_escape cs")
      case (Inl err)
      with 2 "2.prems" scan_escape_error show ?thesis by auto
    next
      case (Inr x)
      obtain ch r1 where x: "x = (ch, r1)" by (cases x)
      with Inr 2 "2.prems" have "scanstring r1 = Inl e"
        by (simp add: push_char_Inl)
      with "2.IH"(1) [OF 2] Inr x show ?thesis by simp
    qed
  next
    case 3
    with "2.prems" show ?thesis by simp
  next
    case 4
    with "2.prems" have "scanstring cs = Inl e" by (simp add: push_char_Inl)
    with "2.IH"(2) [OF 4] show ?thesis by simp
  qed
qed

lemma scan_literal_consumes: "scan_literal s = Some (v, rest) \<Longrightarrow> length rest < length s"
  by (auto simp: scan_literal_def prefix_def str_of_def split: if_splits)

lemma scan_frac_length: "length (snd (scan_frac s)) \<le> length s"
  by (auto simp: scan_frac_def split: list.splits intro: le_trans [OF length_dropWhile_le])

lemma scan_exp_length: "length (snd (scan_exp s)) \<le> length s"
  by (auto simp: scan_exp_def scan_exp_digits_def split: list.splits
      intro: le_trans [OF length_dropWhile_le])

lemma scan_int_part_consumes: "scan_int_part s = Some (ip, rest) \<Longrightarrow> length rest < length s"
  by (auto simp: scan_int_part_def split: list.splits if_splits
      intro: le_imp_less_Suc [OF length_dropWhile_le])

lemma scan_number_from_consumes:
  "scan_number_from neg s = Some (v, rest) \<Longrightarrow> length rest < length s"
proof -
  assume a: "scan_number_from neg s = Some (v, rest)"
  then obtain ip r1 where i: "scan_int_part s = Some (ip, r1)"
    and r: "rest = snd (scan_exp (snd (scan_frac r1)))"
    by (auto simp: scan_number_from_def split: option.splits)
  have "length rest \<le> length (snd (scan_frac r1))"
    unfolding r by (rule scan_exp_length)
  also have "\<dots> \<le> length r1" by (rule scan_frac_length)
  also have "\<dots> < length s" using i by (rule scan_int_part_consumes)
  finally show ?thesis .
qed

lemma scan_number_consumes: "scan_number s = Some (v, rest) \<Longrightarrow> length rest < length s"
  by (auto simp: scan_number_def split: list.splits if_splits
      dest!: scan_number_from_consumes)

lemma scan_atom_consumes: "scan_atom s = Inr (v, rest) \<Longrightarrow> length rest < length s"
  by (auto simp: scan_atom_def split: option.splits
      dest: scan_literal_consumes scan_number_consumes)

lemma scan_atom_error: "scan_atom s = Inl e \<Longrightarrow> e = JSONDecodeError"
  by (auto simp: scan_atom_def split: option.splits)

lemma expect_Inr: "expect c s = Inr r \<longleftrightarrow> s = c # r"
  by (auto simp: expect_def split: list.splits)

lemma expect_Inl: "expect c s = Inl e \<Longrightarrow> e = JSONDecodeError"
  by (auto simp: expect_def split: list.splits if_splits)

lemma parse_value_Suc_Inr:
  assumes "parse_value (Suc n) s = Inr (v, rest)"
  obtains (str) cs x where "s = 34 # cs" "scanstring cs = Inr (x, rest)"
  | (empty_obj) cs where "s = 123 # cs" "skip_ws cs = 125 # rest"
  | (obj) cs d ds kvs where "s = 123 # cs" "skip_ws cs = d # ds" "parse_members n (d # ds) = Inr (kvs, rest)"
  | (empty_arr) cs where "s = 91 # cs" "skip_ws cs = 93 # rest"
  | (arr) cs d ds vs where "s = 91 # cs" "skip_ws cs = d # ds" "parse_items n (d # ds) = Inr (vs, rest)"
  | (atom) "scan_atom s = Inr (v, rest)"
proof (cases s)
  case Nil
  with assms show ?thesis by simp
next
  case (Cons c cs)
  consider "c = 34" | "c \<noteq> 34" "c = 123" | "c \<noteq> 34" "c \<noteq> 123" "c = 91"
    | "c \<noteq> 34" "c \<noteq> 123" "c \<noteq> 91" by blast
  then show ?thesis
  proof cases
    case 1
    with assms Cons show ?thesis
      by (auto simp: bind_eq_Inr intro: str)
  next
    case 2
    with assms Cons show ?thesis
      by (auto simp: bind_eq_Inr split: list.splits if_splits intro: empty_obj obj)
  next
    case 3
    with assms Cons show ?thesis
      by (auto simp: bind_eq_Inr split: list.splits if_splits intro: empty_arr arr)
  next
    case 4
    with assms Cons show ?thesis
      by (auto intro: atom)
  qed
qed

lemma parse_members_Suc_Inr:
  assumes "parse_members (Suc n) s = Inr (kvs, rest)"
  obtains s1 key s2 s3 v s4 where "s = 34 # s1" "scanstring s1 = Inr (key, s2)"
    "skip_ws s2 = 58 # s3" "parse_value n (skip_ws s3) = Inr (v, s4)"
    "(skip_ws s4 = 125 # rest \<and> kvs = [(key, v)])
     \<or> (\<exists>ds kvs'. skip_ws s4 = 44 # ds \<and> parse_members n (skip_ws ds) = Inr (kvs', rest)
            \<and> kvs = (key, v) # kvs')"
proof -
  from assms obtain s1 where s1: "expect 34 s = Inr s1"
    and r1: "bind (scanstring s1) (\<lambda>(key, s2).
     bind (expect 58 (skip_ws s2)) (\<lambda>s3.
     bind (parse_value n (skip_ws s3)) (\<lambda>(v, s4).
       (case skip_ws s4 of
          [] \<Rightarrow> Inl JSONDecodeError
        | d # ds \<Rightarrow>
            if d = 125 then Inr ([(key, v)], ds)
            else if d = 44 then
              bind (parse_members n (skip_ws ds)) (\<lambda>(kvs, rest). Inr ((key, v) # kvs, rest))
            else Inl JSONDecodeError)))) = Inr (kvs, rest)"
    by (auto simp: bind_eq_Inr)
  from r1 obtain key s2 where s2: "scanstring s1 = Inr (key, s2)"
    and r2: "bind (expect 58 (skip_ws s2)) (\<lambda>s3.
     bind (parse_value n (skip_ws s3)) (\<lambda>(v, s4).
       (case skip_ws s4 of
          [] \<Rightarrow> Inl JSONDecodeError
        | d # ds \<Rightarrow>
            if d = 125 then Inr ([(key, v)], ds)
            else if d = 44 then
              bind (parse_members n (skip_ws ds)) (\<lambda>(kvs, rest). Inr ((key, v) # kvs, rest))
            else Inl JSONDecodeError))) = Inr (kvs, rest)"
    by (auto simp: bind_eq_Inr)
  from r2 obtain s3 where s3: "expect 58 (skip_ws s2) = Inr s3"
    and r3: "bind (parse_value n (skip_ws s3)) (\<lambda>(v, s4).
       (case skip_ws s4 of
          [] \<Rightarrow> Inl JSONDecodeError
        | d # ds \<Rightarrow>
            if d = 125 then Inr ([(key, v)], ds)
            else if d = 44 then
              bind (parse_members n (skip_ws ds)) (\<lambda>(kvs, rest). Inr ((key, v) # kvs, rest))
            else Inl JSONDecodeError)) = Inr (kvs, rest)"
    by (auto simp: bind_eq_Inr)
  from r3 obtain v s4 where s4: "parse_value n (skip_ws s3) = Inr (v, s4)"
    and r4: "(case skip_ws s4 of
          [] \<Rightarrow> Inl JSONDecodeError
        | d # ds \<Rightarrow>
            if d = 125 then Inr ([(key, v)], ds)
            else if d = 44 then
              bind (parse_members n (skip_ws ds)) (\<lambda>(kvs, rest). Inr ((key, v) # kvs, rest))
            else Inl JSONDecodeError) = Inr (kvs, rest)"
    by (auto simp: bind_eq_Inr)
  from r4 have "(skip_ws s4 = 125 # rest \<and> kvs = [(key, v)])
     \<or> (\<exists>ds kvs'. skip_ws s4 = 44 # ds \<and> parse_members n (skip_ws ds) = Inr (kvs', rest)
            \<and> kvs = (key, v) # kvs')"
    by (auto simp: bind_eq_Inr split: list.splits if_splits)
  with s1 s2 s3 s4 that show ?thesis
    by (simp add: expect_Inr)
qed

lemma parse_items_Suc_Inr:
  assumes "parse_items (Suc n) s = Inr (vs, rest)"
  obtains v s1 where "parse_value n s = Inr (v, s1)"
    "(skip_ws s1 = 93 # rest \<and> vs = [v])
     \<or> (\<exists>ds vs'. skip_ws s1 = 44 # ds \<and> parse_items n (skip_ws ds) = Inr (vs', rest)
            \<and> vs = v # vs')"
proof -
  from assms obtain v s1 where s1: "parse_value n s = Inr (v, s1)"
    and r: "(case skip_ws s1 of
          [] \<Rightarrow> Inl JSONDecodeError
        | d # ds \<Rightarrow>
            if d = 93 then Inr ([v], ds)
            else if d = 44 then
              bind (parse_items n (skip_ws ds)) (\<lambda>(vs, rest). Inr (v # vs, rest))
            else Inl JSONDecodeError) = Inr (vs, rest)"
    by (auto simp: bind_eq_Inr)
  from r have "(skip_ws s1 = 93 # rest \<and> vs = [v])
     \<or> (\<exists>ds vs'. skip_ws s1 = 44 # ds \<and> parse_items n (skip_ws ds) = Inr (vs', rest)
            \<and> vs = v # vs')"
    by (auto simp: bind_eq_Inr split: list.splits if_splits)
  with s1 that show ?thesis by blast
qed

lemma skip_ws_Cons_length: "skip_ws s = c # r \<Longrightarrow> length r < length s"
  using skip_ws_length [of s] by simp

text \<open>Every successful call of the scanner consumes at least one character.\<close>

lemma parse_consumes:
  "(\<forall>s v rest. parse_value n s = Inr (v, rest) \<longrightarrow> length rest < length s)
   \<and> (\<forall>s kvs rest. parse_members n s = Inr (kvs, rest) \<longrightarrow> length rest + 4 < length s)
   \<and> (\<forall>s vs rest. parse_items n s = Inr (vs, rest) \<longrightarrow> length rest + 1 < length s)"
proof (induction n)
  case 0
  show ?case by simp
next
  case (Suc n)
  then have ihv: "\<And>s v rest. parse_value n s = Inr (v, rest) \<Longrightarrow> length rest < length s"
    and ihm: "\<And>s kvs rest. parse_members n s = Inr (kvs, rest) \<Longrightarrow> length rest + 4 < length s"
    and ihi: "\<And>s vs rest. parse_items n s = Inr (vs, rest) \<Longrightarrow> length rest + 1 < length s"
    by blast+
  have v: "length rest < length s" if "parse_value (Suc n) s = Inr (v, rest)" for s v rest
    using that
  proof (cases rule: parse_value_Suc_Inr)
    case (str cs x)
    then show ?thesis using scanstring_consumes by fastforce
  next
    case (empty_obj cs)
    then show ?thesis using skip_ws_Cons_length by fastforce
  next
    case (obj cs d ds kvs)
    from ihm [OF obj(3)] skip_ws_length [of cs] obj(1,2) show ?thesis by simp
  next
    case (empty_arr cs)
    then show ?thesis using skip_ws_Cons_length by fastforce
  next
    case (arr cs d ds vs)
    from ihi [OF arr(3)] skip_ws_length [of cs] arr(1,2) show ?thesis by simp
  next
    case atom
    then show ?thesis by (rule scan_atom_consumes)
  qed
  have m: "length rest + 4 < length s" if "parse_members (Suc n) s = Inr (kvs, rest)" for s kvs rest
    using that
  proof (cases rule: parse_members_Suc_Inr)
    case (1 s1 key s2 s3 v s4)
    have a: "length s2 < length s1" using 1(2) by (rule scanstring_consumes)
    have b: "length s3 < length s2" using 1(3) by (rule skip_ws_Cons_length)
    have c: "length s4 < length s3" using ihv [OF 1(4)] skip_ws_length [of s3] by simp
    from 1(5) have "length rest < length s4"
    proof
      assume "skip_ws s4 = 125 # rest \<and> kvs = [(key, v)]"
      then show ?thesis using skip_ws_Cons_length by blast
    next
      assume "\<exists>ds kvs'. skip_ws s4 = 44 # ds \<and> parse_members n (skip_ws ds) = Inr (kvs', rest)
            \<and> kvs = (key, v) # kvs'"
      then obtain ds kvs' where d: "skip_ws s4 = 44 # ds"
        and p: "parse_members n (skip_ws ds) = Inr (kvs', rest)" by blast
      from ihm [OF p] skip_ws_length [of ds] skip_ws_Cons_length [OF d] show ?thesis by simp
    qed
    with a b c 1(1) show ?thesis by simp
  qed
  have i: "length rest + 1 < length s" if "parse_items (Suc n) s = Inr (vs, rest)" for s vs rest
    using that
  proof (cases rule: parse_items_Suc_Inr)
    case (1 v s1)
    have a: "length s1 < length s" using 1(1) by (rule ihv)
    from 1(2) have "length rest < length s1"
    proof
      assume "skip_ws s1 = 93 # rest \<and> vs = [v]"
      then show ?thesis using skip_ws_Cons_length by blast
    next
      assume "\<exists>ds vs'. skip_ws s1 = 44 # ds \<and> parse_items n (skip_ws ds) = Inr (vs', rest)
            \<and> vs = v # vs'"
      then obtain ds vs' where d: "skip_ws s1 = 44 # ds"
        and p: "parse_items n (skip_ws ds) = Inr (vs', rest)" by blast
      from ihi [OF p] skip_ws_length [of ds] skip_ws_Cons_length [OF d] show ?thesis by simp
    qed
    with a show ?thesis by simp
  qed
  from v m i show ?case by blast
qed

lemma parse_value_consumes: "parse_value n s = Inr (v, rest) \<Longrightarrow> length rest < length s"
  using parse_consumes [of n] by blast

lemma parse_value_Suc_Inl:
  assumes "parse_value (Suc n) s = Inl e"
  obtains (decode) "e = JSONDecodeError"
  | (obj) cs r where "s = 123 # cs" "parse_members n r = Inl e" "length r \<le> length cs"
  | (arr) cs r where "s = 91 # cs" "parse_items n r = Inl e" "length r \<le> length cs"
proof (cases s)
  case Nil
  with assms show ?thesis by (auto intro: decode)
next
  case (Cons c cs)
  consider "c = 34" | "c \<noteq> 34" "c = 123" | "c \<noteq> 34" "c \<noteq> 123" "c = 91"
    | "c \<noteq> 34" "c \<noteq> 123" "c \<noteq> 91" by blast
  then show ?thesis
  proof cases
    case 1
    with assms Cons have "scanstring cs = Inl e"
      by (auto simp: bind_eq_Inl)
    then show ?thesis using scanstring_error decode by blast
  next
    case 2
    show ?thesis
    proof (cases "skip_ws cs")
      case Nil
      with 2 assms Cons show ?thesis by (auto intro: decode)
    next
      case (Cons d ds)
      with 2 assms \<open>s = c # cs\<close> have "parse_members n (d # ds) = Inl e"
        by (auto simp: bind_eq_Inl split: if_splits)
      moreover have "length (d # ds) \<le> length cs"
        using skip_ws_length [of cs] Cons by simp
      ultimately show ?thesis using 2 \<open>s = c # cs\<close> obj by blast
    qed
  next
    case 3
    show ?thesis
    proof (cases "skip_ws cs")
      case Nil
      with 3 assms Cons show ?thesis by (auto intro: decode)
    next
      case (Cons d ds)
      with 3 assms \<open>s = c # cs\<close> have "parse_items n (d # ds) = Inl e"
        by (auto simp: bind_eq_Inl split: if_splits)
      moreover have "length (d # ds) \<le> length cs"
        using skip_ws_length [of cs] Cons by simp
      ultimately show ?thesis using 3 \<open>s = c # cs\<close> arr by blast
    qed
  next
    case 4
    with assms Cons have "scan_atom s = Inl e" by simp
    then show ?thesis using scan_atom_error decode by blast
  qed
qed

lemma parse_members_Suc_Inl:
  assumes "parse_members (Suc n) s = Inl e"
  obtains (decode) "e = JSONDecodeError"
  | (val) r where "parse_value n r = Inl e" "length r + 3 \<le> length s"
  | (next_member) r where "parse_members n r = Inl e" "length r + 5 \<le> length s"
proof (cases "expect 34 s")
  case (Inl err)
  with assms have "e = err" by simp
  with Inl expect_Inl decode show ?thesis by blast
next
  case (Inr s1)
  then have s: "s = 34 # s1" by (simp add: expect_Inr)
  show ?thesis
  proof (cases "scanstring s1")
    case (Inl err)
    with assms Inr have "e = err" by simp
    with Inl scanstring_error decode show ?thesis by blast
  next
    case s2: (Inr ks)
    obtain key s2 where ks: "ks = (key, s2)" by (cases ks)
    have l2: "length s2 < length s1"
      using s2 ks scanstring_consumes by blast
    show ?thesis
    proof (cases "expect 58 (skip_ws s2)")
      case (Inl err)
      with assms Inr s2 ks have "e = err" by simp
      with Inl expect_Inl decode show ?thesis by blast
    next
      case s3: (Inr s3)
      then have l3: "length s3 < length s2"
        using skip_ws_Cons_length by (simp add: expect_Inr)
      show ?thesis
      proof (cases "parse_value n (skip_ws s3)")
        case (Inl err)
        with assms Inr s2 ks s3 have "parse_value n (skip_ws s3) = Inl e" by simp
        moreover have "length (skip_ws s3) + 3 \<le> length s"
          using skip_ws_length [of s3] l3 l2 s by simp
        ultimately show ?thesis using val by blast
      next
        case s4: (Inr vs)
        obtain v s4 where vs: "vs = (v, s4)" by (cases vs)
        have l4: "length s4 < length (skip_ws s3)"
          using s4 vs parse_value_consumes by blast
        from assms Inr s2 ks s3 s4 vs
        have r: "(case skip_ws s4 of
            [] \<Rightarrow> Inl JSONDecodeError
          | d # ds \<Rightarrow>
              if d = 125 then Inr ([(key, v)], ds)
              else if d = 44 then
                bind (parse_members n (skip_ws ds)) (\<lambda>(kvs, rest). Inr ((key, v) # kvs, rest))
              else Inl JSONDecodeError) = Inl e"
          by simp
        show ?thesis
        proof (cases "skip_ws s4")
          case Nil
          with r show ?thesis by (auto intro: decode)
        next
          case (Cons d ds)
          consider "d = 125" | "d \<noteq> 125" "d = 44" | "d \<noteq> 125" "d \<noteq> 44" by blast
          then show ?thesis
          proof cases
            case 1
            with r Cons show ?thesis by simp
          next
            case 2
            with r Cons have "parse_members n (skip_ws ds) = Inl e"
              by (auto simp: bind_eq_Inl)
            moreover have "length (skip_ws ds) + 5 \<le> length s"
              using skip_ws_length [of ds] skip_ws_Cons_length [OF Cons] l4
                skip_ws_length [of s3] l3 l2 s by simp
            ultimately show ?thesis using next_member by blast
          next
            case 3
            with r Cons show ?thesis by (auto intro: decode)
          qed
        qed
      qed
    qed
  qed
qed

lemma parse_items_Suc_Inl:
  assumes "parse_items (Suc n) s = Inl e"
  obtains (decode) "e = JSONDecodeError"
  | (val) "parse_value n s = Inl e"
  | (next_item) r where "parse_items n r = Inl e" "length r + 2 \<le> length s"
proof (cases "parse_value n s")
  case (Inl err)
  with assms have "parse_value n s = Inl e" by simp
  then show ?thesis by (rule val)
next
  case (Inr vs)
  obtain v s1 where vs: "vs = (v, s1)" by (cases vs)
  have l1: "length s1 < length s"
    using Inr vs parse_value_consumes by blast
  from assms Inr vs
  have r: "(case skip_ws s1 of
          [] \<Rightarrow> Inl JSONDecodeError
        | d # ds \<Rightarrow>
            if d = 93 then Inr ([v], ds)
            else if d = 44 then
              bind (parse_items n (skip_ws ds)) (\<lambda>(vs, rest). Inr (v # vs, rest))
            else Inl JSONDecodeError) = Inl e"
    by simp
  show ?thesis
  proof (cases "skip_ws s1")
    case Nil
    with r show ?thesis by (auto intro: decode)
  next
    case (Cons d ds)
    consider "d = 93" | "d \<noteq> 93" "d = 44" | "d \<noteq> 93" "d \<noteq> 44" by blast
    then show ?thesis
    proof cases
      case 1
      with r Cons show ?thesis by simp
    next
      case 2
      with r Cons have "parse_items n (skip_ws ds) = Inl e"
        by (auto simp: bind_eq_Inl)
      moreover have "length (skip_ws ds) + 2 \<le> length s"
        using skip_ws_length [of ds] skip_ws_Cons_length [OF Cons] l1 by simp
      ultimately show ?thesis using next_item by blast
    next
      case 3
      with r Cons show ?thesis by (auto intro: decode)
    qed
  qed
qed

text \<open>
  An error of the scanner is a JSONDecodeError, unless the bound on nested calls was
  used up, which takes a bound of at most twice the length of the input.
\<close>

lemma parse_errors:
  "(\<forall>s e. parse_value n s = Inl e \<longrightarrow>
       e = JSONDecodeError \<or> (e = RecursionError \<and> n \<le> 2 * length s))
   \<and> (\<forall>s e. parse_members n s = Inl e \<longrightarrow>
       e = JSONDecodeError \<or> (e = RecursionError \<and> n \<le> 2 * length s + 1))
   \<and> (\<forall>s e. parse_items n s = Inl e \<longrightarrow>
       e = JSONDecodeError \<or> (e = RecursionError \<and> n \<le> 2 * length s + 1))"
proof (induction n)
  case 0
  show ?case by simp
next
  case (Suc n)
  then have ihv: "\<And>s e. parse_value n s = Inl e \<Longrightarrow>
        e = JSONDecodeError \<or> (e = RecursionError \<and> n \<le> 2 * length s)"
    and ihm: "\<And>s e. parse_members n s = Inl e \<Longrightarrow>
        e = JSONDecodeError \<or> (e = RecursionError \<and> n \<le> 2 * length s + 1)"
    and ihi: "\<And>s e. parse_items n s = Inl e \<Longrightarrow>
        e = JSONDecodeError \<or> (e = RecursionError \<and> n \<le> 2 * length s + 1)"
    by blast+
  have v: "e = JSONDecodeError \<or> (e = RecursionError \<and> Suc n \<le> 2 * length s)"
    if "parse_value (Suc n) s = Inl e" for s e
    using that
  proof (cases rule: parse_value_Suc_Inl)
    case decode
    then show ?thesis by simp
  next
    case (obj cs r)
    from ihm [OF obj(2)] obj(1,3) show ?thesis by auto
  next
    case (arr cs r)
    from ihi [OF arr(2)] arr(1,3) show ?thesis by auto
  qed
  have m: "e = JSONDecodeError \<or> (e = RecursionError \<and> Suc n \<le> 2 * length s + 1)"
    if "parse_members (Suc n) s = Inl e" for s e
    using that
  proof (cases rule: parse_members_Suc_Inl)
    case decode
    then show ?thesis by simp
  next
    case (val r)
    from ihv [OF val(1)] val(2) show ?thesis by auto
  next
    case (next_member r)
    from ihm [OF next_member(1)] next_member(2) show ?thesis by auto
  qed
  have i: "e = JSONDecodeError \<or> (e = RecursionError \<and> Suc n \<le> 2 * length s + 1)"
    if "parse_items (Suc n) s = Inl e" for s e
    using that
  proof (cases rule: parse_items_Suc_Inl)
    case decode
    then show ?thesis by simp
  next
    case val
    from ihv [OF val] show ?thesis by auto
  next
    case (next_item r)
    from ihi [OF next_item(1)] next_item(2) show ?thesis by auto
  qed
  from v m i show ?case by blast
qed

text \<open>\<open>json.loads\<close> returns a value or raises JSONDecodeError.\<close>

lemma json_loads_error: "json_loads s = Inl e \<Longrightarrow> e = JSONDecodeError"
proof -
  assume a: "json_loads s = Inl e"
  show ?thesis
  proof (cases "parse_value (Suc (2 * length s)) (skip_ws s)")
    case (Inl err)
    with a have "e = err" by (simp add: json_loads_def)
    with Inl parse_errors [of "Suc (2 * length s)"] skip_ws_length [of s]
    show ?thesis by fastforce
  next
    case (Inr x)
    with a show ?thesis
      by (auto simp: json_loads_def split: prod.splits if_splits)
  qed
qed

section \<open>The sample log\<close>

lemmas sample_floats = f_1_5_def f_3_def f_200_def f_300_def f_500_def f_999_def zero_f64_def

lemma sample_floats_read:
  "float_of_dec False 15 (- 1) = f_1_5"
  "float_of_dec False 2000 (- 1) = f_200"
  "float_of_dec False 3000 (- 1) = f_300"
  "float_of_dec False 9990 (- 1) = f_999"
  "float_of_dec False 0 (- 1) = zero_f64"
  by (simp_all add: float_eval sample_floats)

lemma sample_sums:
  "fadd zero_f64 zero_f64 = zero_f64"
  "fadd zero_f64 f_200 = f_200"
  "fadd f_200 f_300 = f_500"
  "fadd zero_f64 f_1_5 = f_1_5"
  "fadd f_1_5 f_1_5 = f_3"
  by (simp_all add: float_eval sample_floats)

lemma sample_log_lines: "file_lines sample_log = [sample_line_1, sample_line_2, sample_line_3]"
  by (simp add: sample_log_def sample_line_1_def sample_line_2_def sample_line_3_def
      file_lines_def str_of_def)

lemma broken_log_lines: "file_lines broken_log = [sample_line_1, broken_line, sample_line_3]"
  by (simp add: broken_log_def sample_line_1_def broken_line_def sample_line_3_def
      file_lines_def str_of_def)

lemmas scan_only = scan_eval str_of_def log_entry_def

lemma sample_lines_loaded:
  "json_loads sample_line_1 = Inr sample_entry_1"
  "json_loads sample_line_2 = Inr sample_entry_2"
  "json_loads sample_line_3 = Inr sample_entry_3"
  by (simp_all add: sample_line_1_def sample_line_2_def sample_line_3_def
      sample_entry_1_def sample_entry_2_def sample_entry_3_def scan_only sample_floats_read)

lemma broken_line_loaded: "json_loads broken_line = Inl JSONDecodeError"
  by (simp add: broken_line_def scan_only)

lemma sample_entries_fields:
  "py_getitem sample_entry_1 (str_of ''timestamp'') = Inr (JStr (str_of ''2024-05-01T08:00:00''))"
  "py_getitem sample_entry_2 (str_of ''timestamp'') = Inr (JStr (str_of ''2024-04-30T23:59:00''))"
  "py_getitem sample_entry_3 (str_of ''timestamp'') = Inr (JStr (str_of ''2024-05-01T12:30:00''))"
  "py_getitem sample_entry_1 (str_of ''calories'') = Inr (JNum (PFloat f_200))"
  "py_getitem sample_entry_3 (str_of ''calories'') = Inr (JNum (PFloat f_300))"
  "py_getitem sample_entry_1 (str_of ''protein_g'') = Inr (JNum (PFloat f_1_5))"
  "py_getitem sample_entry_3 (str_of ''protein_g'') = Inr (JNum (PFloat f_1_5))"
  "py_getitem sample_entry_1 (str_of ''carbs_g'') = Inr (JNum (PFloat zero_f64))"
  "py_getitem sample_entry_3 (str_of ''carbs_g'') = Inr (JNum (PFloat zero_f64))"
  "py_getitem sample_entry_1 (str_of ''fat_g'') = Inr (JNum (PFloat zero_f64))"
  "py_getitem sample_entry_3 (str_of ''fat_g'') = Inr (JNum (PFloat zero_f64))"
  by (simp_all add: sample_entry_1_def sample_entry_2_def sample_entry_3_def log_entry_def
      py_getitem_def str_of_def)

lemma sample_dates:
  "startswith (str_of ''2024-05-01T08:00:00'') (str_of ''2024-05-01'')"
  "\<not> startswith (str_of ''2024-04-30T23:59:00'') (str_of ''2024-05-01'')"
  "startswith (str_of ''2024-05-01T12:30:00'') (str_of ''2024-05-01'')"
  by (simp_all add: startswith_def str_of_def)

lemma sample_entries_differ: "sample_entry_1 \<noteq> sample_entry_2" "sample_entry_3 \<noteq> sample_entry_2"
  by (simp_all add: sample_entry_1_def sample_entry_2_def sample_entry_3_def log_entry_def
      str_of_def)


lemma sample_read:
  "read_entries (str_of ''2024-05-01'') [] [sample_line_1, sample_line_2, sample_line_3]
     = Inr [sample_entry_1, sample_entry_3]"
  by (simp add: line_entry_def sample_lines_loaded sample_entries_fields py_startswith_def
      sample_dates)


lemma sample_add_1:
  "add_entry (\<lambda>_. Inr ()) zero_totals sample_entry_1 =
     Inr \<lparr>total_cals = f_200, total_protein = f_1_5,
           total_carbs = zero_f64, total_fat = zero_f64\<rparr>"
  by (simp add: add_entry_def sample_entries_fields py_add_def sample_sums zero_totals_def)

lemma sample_add_3:
  "add_entry (\<lambda>_. Inr ())
     \<lparr>total_cals = f_200, total_protein = f_1_5,
           total_carbs = zero_f64, total_fat = zero_f64\<rparr> sample_entry_3 =
     Inr \<lparr>total_cals = f_500, total_protein = f_3,
           total_carbs = zero_f64, total_fat = zero_f64\<rparr>"
  by (simp add: add_entry_def sample_entries_fields py_add_def sample_sums)


lemma sample_day:
  "entriesForDate (\<lambda>_. Inr ()) (str_of ''2024-05-01'') (Some sample_log) =
     Inr ([sample_entry_1, sample_entry_3],
          \<lparr>total_cals = f_500, total_protein = f_3,
           total_carbs = zero_f64, total_fat = zero_f64\<rparr>)"
  by (simp add: entriesForDate_def today_def sample_log_lines sample_read sample_add_1
      sample_add_3 rows_of_def totals_of_def del: read_entries.simps)


text \<open>
  The scenario of the specification: two entries of one date with 200 and 300 kcal come
  back in append order with 500 kcal in total, and the entry of another date is left out.
\<close>

theorem entries_for_date_filter_and_totals_witness:
  "entriesForDate (\<lambda>_. Inr ()) (str_of ''2024-05-01'') (Some sample_log) =
     Inr ([sample_entry_1, sample_entry_3],
          \<lparr>total_cals = f_500, total_protein = f_3,
           total_carbs = zero_f64, total_fat = zero_f64\<rparr>)
   \<and> readAll (Some sample_log) = Inr [sample_entry_1, sample_entry_2, sample_entry_3]
   \<and> [sample_entry_1, sample_entry_3]
       = filter (on_date (str_of ''2024-05-01'')) [sample_entry_1, sample_entry_2, sample_entry_3]
   \<and> field_sum (str_of ''calories'') zero_f64 [sample_entry_1, sample_entry_3] = Inr f_500"
proof -
  have r: "readAll (Some sample_log) = Inr [sample_entry_1, sample_entry_2, sample_entry_3]"
    by (simp add: readAll_def sample_log_lines sample_lines_loaded)
  from entries_for_date_filter_and_totals [OF sample_day]
  obtain es where "readAll (Some sample_log) = Inr es"
    and f: "[sample_entry_1, sample_entry_3] = filter (on_date (str_of ''2024-05-01'')) es"
    and s: "field_sum (str_of ''calories'') zero_f64 [sample_entry_1, sample_entry_3]
            = Inr (total_cals \<lparr>total_cals = f_500, total_protein = f_3,
                     total_carbs = zero_f64, total_fat = zero_f64\<rparr>)"
    by blast
  with r have "es = [sample_entry_1, sample_entry_2, sample_entry_3]" by simp
  with f s r sample_day show ?thesis by simp
qed

section \<open>A malformed line\<close>

lemma decode_lines_abort:
  "\<forall>l \<in> set pre. \<exists>v. json_loads l = Inr v \<Longrightarrow> json_loads bad = Inl err \<Longrightarrow>
     decode_lines (pre @ bad # post) = Inl err"
  by (induction pre) auto

lemma line_entry_undecodable: "json_loads line = Inl err \<Longrightarrow> line_entry date line = Inl err"
  by (simp add: line_entry_def)

lemma read_entries_abort:
  "json_loads bad = Inl err \<Longrightarrow> \<exists>e. read_entries date acc (pre @ bad # post) = Inl e"
proof (induction pre arbitrary: acc)
  case Nil
  then show ?case by (simp add: line_entry_undecodable)
next
  case (Cons l pre)
  show ?case
  proof (cases "line_entry date l")
    case (Inl e)
    then show ?thesis by simp
  next
    case (Inr r)
    obtain entry b where "r = (entry, b)" by (cases r)
    with Inr Cons.IH [OF Cons.prems] show ?thesis by simp
  qed
qed

lemma read_entries_abort_exact:
  "\<forall>l \<in> set pre. \<exists>r. line_entry date l = Inr r \<Longrightarrow> json_loads bad = Inl err \<Longrightarrow>
     read_entries date acc (pre @ bad # post) = Inl err"
proof (induction pre arbitrary: acc)
  case Nil
  then show ?case by (simp add: line_entry_undecodable)
next
  case (Cons l pre)
  then obtain entry b where "line_entry date l = Inr (entry, b)" by fastforce
  with Cons show ?case by simp
qed

text \<open>
  C8: when the log has a line that \<open>json.loads\<close> rejects, and \<open>bad\<close> is the first such
  line, \<open>readAll\<close> raises the JSONDecodeError of that line whatever follows it, and no
  entry is returned; \<open>today\<close> raises too, and raises that same error when the lines
  before it pass its date test.
\<close>

theorem read_aborts_at_first_malformed_line:
  assumes "file_lines contents = pre @ bad # post"
    and "\<forall>l \<in> set pre. \<exists>v. json_loads l = Inr v"
    and "json_loads bad = Inl err"
  shows "err = JSONDecodeError
    \<and> readAll (Some contents) = Inl JSONDecodeError
    \<and> (\<exists>e. today render_row date (Some contents) = Inl e)
    \<and> ((\<forall>l \<in> set pre. \<exists>r. line_entry date l = Inr r) \<longrightarrow>
          today render_row date (Some contents) = Inl JSONDecodeError)"
proof -
  have e: "err = JSONDecodeError"
    using assms(3) by (rule json_loads_error)
  have r: "readAll (Some contents) = Inl JSONDecodeError"
    using decode_lines_abort [OF assms(2,3)] assms(1) e by (simp add: readAll_def)
  obtain e' where "read_entries date [] (pre @ bad # post) = Inl e'"
    using read_entries_abort [OF assms(3)] by blast
  then have t: "\<exists>e. today render_row date (Some contents) = Inl e"
    using assms(1) by (simp add: today_def)
  have x: "today render_row date (Some contents) = Inl JSONDecodeError"
    if "\<forall>l \<in> set pre. \<exists>r. line_entry date l = Inr r"
    using read_entries_abort_exact [OF that assms(3)] assms(1) e by (simp add: today_def)
  from e r t x show ?thesis by blast
qed

theorem read_aborts_at_first_malformed_line_witness:
  "file_lines broken_log = [sample_line_1] @ broken_line # [sample_line_3]
   \<and> json_loads sample_line_1 = Inr sample_entry_1
   \<and> json_loads broken_line = Inl JSONDecodeError
   \<and> line_entry (str_of ''2024-05-01'') sample_line_1 = Inr (sample_entry_1, True)
   \<and> readAll (Some broken_log) = Inl JSONDecodeError
   \<and> today (\<lambda>_. Inr ()) (str_of ''2024-05-01'') (Some broken_log) = Inl JSONDecodeError"
proof -
  have l: "file_lines broken_log = [sample_line_1] @ broken_line # [sample_line_3]"
    by (simp add: broken_log_lines)
  have p: "\<forall>l \<in> set [sample_line_1]. \<exists>v. json_loads l = Inr v"
    by (simp add: sample_lines_loaded)
  have q: "line_entry (str_of ''2024-05-01'') sample_line_1 = Inr (sample_entry_1, True)"
    by (simp add: line_entry_def sample_lines_loaded sample_entries_fields
        py_startswith_def sample_dates)
  then have "\<forall>l \<in> set [sample_line_1]. \<exists>r. line_entry (str_of ''2024-05-01'') l = Inr r"
    by auto
  with read_aborts_at_first_malformed_line [OF l p broken_line_loaded,
      of "\<lambda>_. Inr ()" "str_of ''2024-05-01''"] l q
  show ?thesis by (simp add: sample_lines_loaded broken_line_loaded)
qed

section \<open>Appending a record\<close>

lemma hex_digit_range: "d < 16 \<Longrightarrow> hex_digit d \<noteq> 10 \<and> hex_digit d \<noteq> 13"
  by (simp add: hex_digit_def)

lemma single_line_hex4: "single_line (hex4 n)"
  by (simp add: single_line_def hex4_def hex_digit_def)

lemma single_line_append [simp]: "single_line (a @ b) \<longleftrightarrow> single_line a \<and> single_line b"
  by (auto simp: single_line_def)

lemma single_line_escape_char: "single_line (escape_char c)"
  using single_line_hex4 by (auto simp: escape_char_def single_line_def)

lemma single_line_concat: "(\<And>x. x \<in> set xs \<Longrightarrow> single_line x) \<Longrightarrow> single_line (concat xs)"
  by (induction xs) (auto simp: single_line_def)

lemma single_line_encode_string: "single_line (encode_string s)"
proof -
  have "single_line (concat (map escape_char s))"
    by (rule single_line_concat) (auto simp: single_line_escape_char)
  then show ?thesis
    by (simp add: encode_string_def single_line_def)
qed

lemma single_line_literals:
  "single_line (str_of ''{'')" "single_line (str_of ''}'')" "single_line (str_of '': '')"
  "single_line (str_of '', '')"
  by (simp_all add: single_line_def str_of_def)

text \<open>The text of an entry, member by member.\<close>

lemma dumps_log_entry:
  "json_dumps r (log_entry now food_name c p cb f serving) =
     str_of ''{''
     @ encode_string (str_of ''timestamp'') @ str_of '': '' @ encode_string now @ str_of '', ''
     @ encode_string (str_of ''food'') @ str_of '': '' @ encode_string food_name @ str_of '', ''
     @ encode_string (str_of ''serving'') @ str_of '': '' @ encode_string serving @ str_of '', ''
     @ encode_string (str_of ''calories'') @ str_of '': '' @ floatstr r c @ str_of '', ''
     @ encode_string (str_of ''protein_g'') @ str_of '': '' @ floatstr r p @ str_of '', ''
     @ encode_string (str_of ''carbs_g'') @ str_of '': '' @ floatstr r cb @ str_of '', ''
     @ encode_string (str_of ''fat_g'') @ str_of '': '' @ floatstr r f
     @ str_of ''}''"
  by (simp add: log_entry_def)

lemma single_line_dumps_log_entry:
  assumes "single_line (floatstr r c)" "single_line (floatstr r p)"
    "single_line (floatstr r cb)" "single_line (floatstr r f)"
  shows "single_line (json_dumps r (log_entry now food_name c p cb f serving))"
  unfolding dumps_log_entry
  using assms by (simp add: single_line_encode_string single_line_literals)

lemma lines_from_plain:
  "c \<noteq> 10 \<Longrightarrow> c \<noteq> 13 \<Longrightarrow> t \<noteq> [] \<Longrightarrow> lines_from cur (c # t) = lines_from (cur @ [c]) t"
  by (cases t) simp_all

lemma lines_from_single_line:
  "single_line s \<Longrightarrow> lines_from cur (s @ [10]) = [cur @ s @ [10]]"
proof (induction s arbitrary: cur)
  case Nil
  show ?case by simp
next
  case (Cons c s)
  then have c: "c \<noteq> 10" "c \<noteq> 13" and s: "single_line s"
    by (auto simp: single_line_def)
  have "lines_from cur ((c # s) @ [10]) = lines_from (cur @ [c]) (s @ [10])"
    using c by (simp add: lines_from_plain)
  with Cons.IH [OF s] show ?case by simp
qed

lemma lines_from_append:
  "old \<noteq> [] \<Longrightarrow> last old = 10 \<or> last old = 13 \<Longrightarrow> new \<noteq> [] \<Longrightarrow> hd new \<noteq> 10 \<Longrightarrow>
     lines_from cur (old @ new) = lines_from cur old @ lines_from [] new"
proof (induction cur old rule: lines_from.induct)
  case (1 cur)
  then show ?case by simp
next
  case (2 cur c)
  then obtain d ds where n: "new = d # ds" "d \<noteq> 10"
    by (cases new) auto
  with 2 show ?case by auto
next
  case (3 cur c d cs)
  have l: "last (d # cs) = 10 \<or> last (d # cs) = 13"
    using "3.prems"(2) by simp
  consider "c = 10" | "c = 13" "d = 10" "cs = []" | "c = 13" "d = 10" "cs \<noteq> []"
    | "c = 13" "d \<noteq> 10" | "c \<noteq> 10" "c \<noteq> 13" by blast
  then show ?case
  proof cases
    case 1
    with "3.IH"(1) [OF 1 _ l "3.prems"(3,4)] show ?thesis by simp
  next
    case 2
    obtain e es where n: "new = e # es" "e \<noteq> 10"
      using "3.prems"(3,4) by (cases new) auto
    with 2 show ?thesis by simp
  next
    case 3
    then have l': "last cs = 10 \<or> last cs = 13" using l by simp
    obtain x xs where cs: "cs = x # xs" using 3 by (cases cs) auto
    have "lines_from cur ((c # d # cs) @ new) = (cur @ [10]) # lines_from [] (cs @ new)"
      using 3 cs by simp
    also have "lines_from [] (cs @ new) = lines_from [] cs @ lines_from [] new"
      using "3.IH"(2) [OF _ 3(1,2) 3(3) l' "3.prems"(3,4)] 3 by simp
    finally show ?thesis using 3 cs by simp
  next
    case 4
    with "3.IH"(3) [OF _ 4(1,2) _ l "3.prems"(3,4)] show ?thesis by simp
  next
    case 5
    with "3.IH"(4) [OF 5 _ l "3.prems"(3,4)] show ?thesis by simp
  qed
qed

lemma hd_dumps_log_entry:
  "json_dumps r (log_entry now food_name c p cb f serving) @ [10] = 123 # tl (json_dumps r (log_entry now food_name c p cb f serving) @ [10])"
  unfolding dumps_log_entry by (simp add: str_of_def)

text \<open>
  C9: \<open>log_food\<close> leaves the file as its prior contents followed by the text of the
  entry and one \<open>'\n'\<close>; the text of the entry has no line end in it (given that the
  printed floats have none), so it is read as one line; and on a log that does not stop
  in the middle of a line, the lines read before are read again, in order, before it.
\<close>

theorem append_keeps_prior_contents:
  assumes "single_line (floatstr float_repr c)" and "single_line (floatstr float_repr p)"
    and "single_line (floatstr float_repr cb)" and "single_line (floatstr float_repr f)"
  shows "log_food float_repr now file food_name c p cb f serving =
       Some (get_or file []
             @ json_dumps float_repr (log_entry now food_name c p cb f serving) @ [10])
    \<and> prefix (get_or file [])
         (get_or (log_food float_repr now file food_name c p cb f serving) [])
    \<and> single_line (json_dumps float_repr (log_entry now food_name c p cb f serving))
    \<and> file_lines (json_dumps float_repr (log_entry now food_name c p cb f serving) @ [10])
        = [json_dumps float_repr (log_entry now food_name c p cb f serving) @ [10]]
    \<and> (ends_with_newline file \<longrightarrow>
         file_lines (get_or (log_food float_repr now file food_name c p cb f serving) [])
         = file_lines (get_or file [])
           @ [json_dumps float_repr (log_entry now food_name c p cb f serving) @ [10]])"
proof -
  let ?rec = "json_dumps float_repr (log_entry now food_name c p cb f serving)"
  have a: "log_food float_repr now file food_name c p cb f serving
           = Some (get_or file [] @ ?rec @ [10])"
    by (simp add: log_food_def append_text_def)
  have s: "single_line ?rec"
    using assms by (rule single_line_dumps_log_entry)
  have l: "file_lines (?rec @ [10]) = [?rec @ [10]]"
    using lines_from_single_line [OF s, of "[]"] by (simp add: file_lines_def)
  have n: "file_lines (get_or file [] @ ?rec @ [10]) = file_lines (get_or file []) @ [?rec @ [10]]"
    if e: "ends_with_newline file"
  proof (cases "get_or file [] = []")
    case True
    with l show ?thesis by (simp add: file_lines_def)
  next
    case False
    with e have "last (get_or file []) = 10 \<or> last (get_or file []) = 13"
      by (auto simp: ends_with_newline_def get_or_def split: option.splits)
    moreover have "?rec @ [10] \<noteq> []" by simp
    moreover have "hd (?rec @ [10]) \<noteq> 10"
      by (subst hd_dumps_log_entry) simp
    ultimately have "lines_from [] (get_or file [] @ ?rec @ [10])
        = lines_from [] (get_or file []) @ lines_from [] (?rec @ [10])"
      using False by (intro lines_from_append)
    with l show ?thesis by (simp add: file_lines_def)
  qed
  from a s l n show ?thesis
    by (simp add: get_or_def)
qed

lemma sample_repr_values:
  "floatstr sample_repr f_1_5 = str_of ''1.5''"
  "floatstr sample_repr f_200 = str_of ''200.0''"
  "floatstr sample_repr f_300 = str_of ''300.0''"
  "floatstr sample_repr f_999 = str_of ''999.0''"
  "floatstr sample_repr zero_f64 = str_of ''0.0''"
  by (simp_all add: floatstr_def sample_repr_def sample_floats)

lemma sample_entry_dumped:
  "json_dumps sample_repr sample_entry_1 @ [10] = sample_line_1"
  "json_dumps sample_repr sample_entry_2 @ [10] = sample_line_2"
  "json_dumps sample_repr sample_entry_3 @ [10] = sample_line_3"
  unfolding sample_entry_1_def sample_entry_2_def sample_entry_3_def dumps_log_entry
    sample_repr_values
  by (simp_all add: sample_line_1_def sample_line_2_def sample_line_3_def encode_string_def
      escape_char_def str_of_def)

theorem append_keeps_prior_contents_witness:
  "single_line (floatstr sample_repr f_300) \<and> single_line (floatstr sample_repr f_1_5)
   \<and> single_line (floatstr sample_repr zero_f64)
   \<and> ends_with_newline (Some (sample_line_1 @ sample_line_2))
   \<and> log_food sample_repr (str_of ''2024-05-01T12:30:00'') (Some (sample_line_1 @ sample_line_2))
        (str_of ''Rice'') f_300 f_1_5 zero_f64 zero_f64 (str_of ''150.0 g'')
       = Some (sample_line_1 @ sample_line_2 @ sample_line_3)
   \<and> file_lines (sample_line_1 @ sample_line_2 @ sample_line_3)
       = file_lines (sample_line_1 @ sample_line_2) @ [sample_line_3]"
proof -
  have s: "single_line (floatstr sample_repr f_300)" "single_line (floatstr sample_repr f_1_5)"
    "single_line (floatstr sample_repr zero_f64)"
    by (simp_all add: sample_repr_values single_line_def str_of_def)
  have e: "ends_with_newline (Some (sample_line_1 @ sample_line_2))"
    by (simp add: ends_with_newline_def sample_line_2_def str_of_def)
  from append_keeps_prior_contents [OF s(1) s(2) s(3) s(3),
      of "str_of ''2024-05-01T12:30:00''" "Some (sample_line_1 @ sample_line_2)"
         "str_of ''Rice''" "str_of ''150.0 g''"] s e
  show ?thesis
    by (auto simp: get_or_def sample_entry_dumped [unfolded sample_entry_3_def])
qed

section \<open>Reading an appended record back\<close>

lemma hex_value_hex_digit: "d < 16 \<Longrightarrow> hex_value (hex_digit d) = Some d"
  by (auto simp: hex_value_def hex_digit_def)

lemma hex4_split:
  fixes n :: nat
  shows "4096 * (n div 4096) + 256 * (n div 256 mod 16) + 16 * (n div 16 mod 16) + n mod 16 = n"
proof -
  have a: "n div 16 div 16 = n div 256" by (simp add: div_mult2_eq)
  have b: "n div 256 div 16 = n div 4096" by (simp add: div_mult2_eq)
  have 1: "n = 16 * (n div 16) + n mod 16" by simp
  have 2: "n div 16 = 16 * (n div 256) + n div 16 mod 16"
    using mult_div_mod_eq [of 16 "n div 16"] a by simp
  have 3: "n div 256 = 16 * (n div 4096) + n div 256 mod 16"
    using mult_div_mod_eq [of 16 "n div 256"] b by simp
  from 1 2 3 show ?thesis by linarith
qed


lemma hex4_value_hex4:
  assumes "n < 65536"
  shows "hex4_value (hex_digit (n div 4096 mod 16)) (hex_digit (n div 256 mod 16))
           (hex_digit (n div 16 mod 16)) (hex_digit (n mod 16)) = Some n"
proof -
  have d: "n div 4096 < 16" using assms by (simp add: less_mult_imp_div_less)
  then have m: "n div 4096 mod 16 = n div 4096" by simp
  have "hex4_value (hex_digit (n div 4096)) (hex_digit (n div 256 mod 16))
           (hex_digit (n div 16 mod 16)) (hex_digit (n mod 16))
        = Some (4096 * (n div 4096) + 256 * (n div 256 mod 16) + 16 * (n div 16 mod 16)
                + n mod 16)"
    using d by (simp add: hex4_value_def hex_value_hex_digit)
  then show ?thesis
    unfolding m hex4_split .
qed

lemma scan_u4_hex4: "n < 65536 \<Longrightarrow> scan_u4 (hex4 n @ rest) = Some (n, rest)"
  using hex4_value_hex4 [of n] by (simp add: scan_u4_def hex4_def)


lemma length_hex4 [simp]: "length (hex4 n) = 4"
  by (simp add: hex4_def)

lemma scan_low_other:
  "bs \<noteq> 92 \<Longrightarrow> scan_low hi (bs # t) = Inr (hi, bs # t)"
  "u \<noteq> 117 \<Longrightarrow> scan_low hi (92 # u # t) = Inr (hi, 92 # u # t)"
  by (simp_all add: scan_low_def split: list.splits)

lemma scan_low_hex4:
  "n < 65536 \<Longrightarrow> \<not> is_low_surrogate n \<Longrightarrow>
     scan_low hi (92 # 117 # hex4 n @ t) = Inr (hi, 92 # 117 # hex4 n @ t)"
  by (simp add: scan_low_def scan_u4_hex4)

lemma scan_low_join:
  "n < 65536 \<Longrightarrow> is_low_surrogate n \<Longrightarrow>
     scan_low hi (92 # 117 # hex4 n @ t) = Inr (join_surrogates hi n, t)"
  by (simp add: scan_low_def scan_u4_hex4)

text \<open>The escape of a character that is not a low surrogate does not join a surrogate before it.\<close>

lemma scan_low_escape_char:
  assumes "d < 1114112" and "\<not> is_low_surrogate d"
  shows "scan_low hi (escape_char d @ t) = Inr (hi, escape_char d @ t)"
proof -
  consider "d = 34 \<or> d = 92 \<or> d = 10 \<or> d = 13 \<or> d = 9 \<or> d = 8 \<or> d = 12"
    | "d \<noteq> 34" "d \<noteq> 92" "32 \<le> d" "d \<le> 126"
    | "d \<noteq> 10" "d \<noteq> 13" "d \<noteq> 9" "d \<noteq> 8" "d \<noteq> 12" "d < 32 \<or> 126 < d" "d < 65536"
    | "65536 \<le> d"
    by linarith
  then show ?thesis
  proof cases
    case 1
    then show ?thesis
      by (auto simp: escape_char_def scan_low_other)
  next
    case 2
    then show ?thesis
      by (auto simp: escape_char_def scan_low_other)
  next
    case 3
    then have "escape_char d = [92, 117] @ hex4 d"
      by (auto simp: escape_char_def)
    with 3 assms show ?thesis
      by (simp add: scan_low_hex4)
  next
    case 4
    let ?h = "55296 + (d - 65536) div 1024 mod 1024"
    have e: "escape_char d @ t = 92 # 117 # hex4 ?h @ ([92, 117] @ hex4 (56320 + (d - 65536) mod 1024) @ t)"
      using 4 by (simp add: escape_char_def)
    have "?h < 65536" "\<not> is_low_surrogate ?h"
      by (simp_all add: is_low_surrogate_def)
    then show ?thesis
      unfolding e by (rule scan_low_hex4)
  qed
qed


lemma surrogate_pair_joins:
  assumes "65536 \<le> c" and "c < 1114112"
  shows "join_surrogates (55296 + (c - 65536) div 1024 mod 1024) (56320 + (c - 65536) mod 1024) = c"
proof -
  have "(c - 65536) div 1024 < 1024"
    using assms by (simp add: less_mult_imp_div_less)
  then have "(c - 65536) div 1024 mod 1024 = (c - 65536) div 1024" by simp
  moreover have "(c - 65536) div 1024 * 1024 + (c - 65536) mod 1024 = c - 65536"
    by simp
  ultimately show ?thesis
    using assms by (simp add: join_surrogates_def)
qed

text \<open>Reading the escape of one character gives the character back.\<close>

lemma scanstring_escape_char:
  assumes "c < 1114112" and "is_high_surrogate c \<longrightarrow> scan_low c t = Inr (c, t)"
  shows "scanstring (escape_char c @ t) = push_char c (scanstring t)"
proof -
  consider "c = 34 \<or> c = 92 \<or> c = 10 \<or> c = 13 \<or> c = 9 \<or> c = 8 \<or> c = 12"
    | "c \<noteq> 34" "c \<noteq> 92" "32 \<le> c" "c \<le> 126"
    | "c \<noteq> 10" "c \<noteq> 13" "c \<noteq> 9" "c \<noteq> 8" "c \<noteq> 12" "c < 32 \<or> 126 < c" "c < 65536"
    | "65536 \<le> c"
    by linarith
  then show ?thesis
  proof cases
    case 1
    then show ?thesis
      by (auto simp: escape_char_def scan_escape_def simple_escape_def)
  next
    case 2
    then show ?thesis
      by (auto simp: escape_char_def)
  next
    case 3
    then have e: "escape_char c @ t = 92 # 117 # hex4 c @ t"
      by (auto simp: escape_char_def)
    have "scan_escape (117 # hex4 c @ t) = Inr (c, t)"
      using 3 assms(2) by (simp add: scan_escape_def scan_u4_hex4)
    then show ?thesis
      unfolding e by simp
  next
    case 4
    let ?h = "55296 + (c - 65536) div 1024 mod 1024"
    let ?l = "56320 + (c - 65536) mod 1024"
    have e: "escape_char c @ t = 92 # 117 # hex4 ?h @ 92 # 117 # hex4 ?l @ t"
      using 4 by (simp add: escape_char_def)
    have h: "?h < 65536" "is_high_surrogate ?h"
      by (simp_all add: is_high_surrogate_def)
    have l: "?l < 65536" "is_low_surrogate ?l"
      by (simp_all add: is_low_surrogate_def)
    have "scan_escape (117 # hex4 ?h @ 92 # 117 # hex4 ?l @ t)
          = scan_low ?h (92 # 117 # hex4 ?l @ t)"
      using h by (simp add: scan_escape_def scan_u4_hex4)
    also have "\<dots> = Inr (join_surrogates ?h ?l, t)"
      using l by (rule scan_low_join)
    also have "join_surrogates ?h ?l = c"
      using 4 assms(1) by (rule surrogate_pair_joins)
    finally show ?thesis
      unfolding e by simp
  qed
qed

lemma scan_low_quote: "scan_low hi (34 # rest) = Inr (hi, 34 # rest)"
  by (simp add: scan_low_other)

lemma roundtrip_str_head: "roundtrip_str (c # cs) \<Longrightarrow> c < 1114112"
  by (cases cs) simp_all

text \<open>A string is read back from its escaped form.\<close>

lemma scanstring_roundtrip:
  "roundtrip_str s \<Longrightarrow> scanstring (concat (map escape_char s) @ 34 # rest) = Inr (s, rest)"
proof (induction s rule: roundtrip_str.induct)
  case 1
  show ?case by simp
next
  case (2 c)
  have "scanstring (escape_char c @ 34 # rest) = push_char c (scanstring (34 # rest))"
    using 2 by (intro scanstring_escape_char) (simp_all add: scan_low_quote)
  then show ?case by (simp add: push_char_def)
next
  case (3 c d cs)
  let ?t = "concat (map escape_char cs) @ 34 # rest"
  from "3.prems" have c: "c < 1114112" and nd: "\<not> (is_high_surrogate c \<and> is_low_surrogate d)"
    and r: "roundtrip_str (d # cs)" by simp_all
  have d: "d < 1114112" using r by (rule roundtrip_str_head)
  have "is_high_surrogate c \<longrightarrow> scan_low c (escape_char d @ ?t) = Inr (c, escape_char d @ ?t)"
    using nd d by (auto intro: scan_low_escape_char)
  then have "scanstring (escape_char c @ escape_char d @ ?t)
             = push_char c (scanstring (escape_char d @ ?t))"
    using c by (intro scanstring_escape_char)
  also have "scanstring (escape_char d @ ?t) = Inr (d # cs, rest)"
    using "3.IH" [OF r] by simp
  finally show ?case by (simp add: push_char_def)
qed

lemma scanstring_encode_string:
  "roundtrip_str s \<Longrightarrow> scanstring (tl (encode_string s) @ rest) = Inr (s, rest)"
  by (simp add: encode_string_def scanstring_roundtrip)



lemma skip_ws_simps [simp]:
  "skip_ws [] = []"
  "skip_ws (32 # s) = skip_ws s"
  "skip_ws (10 # s) = skip_ws s"
  "\<not> is_ws c \<Longrightarrow> skip_ws (c # s) = c # s"
  by (simp_all add: skip_ws_def is_ws_def)

lemma not_ws [simp]: "\<not> is_ws 34" "\<not> is_ws 44" "\<not> is_ws 58" "\<not> is_ws 125" "\<not> is_ws 123"
  by (simp_all add: is_ws_def)






















lemma log_food_Some: "\<exists>contents. log_food r now file food_name c p cb f serving = Some contents"
  by (simp add: log_food_def append_text_def)



subsection \<open>The sample entry\<close>















end
